theory Spec2Isabelle
  imports Complex_Main "HOL-Library.List_Lexorder" "HOL-Library.Char_ord"
begin

section \<open>Geometry kernel (utils.js, in src/unnamed/part_001)\<close>

text \<open>
  JavaScript numbers are modelled as real numbers with exact arithmetic: every
  coordinate is a finite number and no operation rounds or overflows.  Where
  the sign of a computed area decides the matter (orientation normalization),
  the shoelace loop is modelled a second time with every operation rounded to
  the nearest double, see \<open>polygonAreaFl\<close> below.  A point object \<open>{x, y}\<close> is
  the record \<open>point\<close>; its fields are called \<open>px\<close> and \<open>py\<close>.
\<close>

record point =
  px :: real
  py :: real

definition clamp :: "real \<Rightarrow> real \<Rightarrow> real \<Rightarrow> real" where
  "clamp v a b = max a (min b v)"

definition pt :: "real \<Rightarrow> real \<Rightarrow> point" where
  "pt a b = \<lparr>px = a, py = b\<rparr>"

definition add :: "point \<Rightarrow> point \<Rightarrow> point" where
  "add a b = \<lparr>px = px a + px b, py = py a + py b\<rparr>"

definition sub :: "point \<Rightarrow> point \<Rightarrow> point" where
  "sub a b = \<lparr>px = px a - px b, py = py a - py b\<rparr>"

definition mul :: "point \<Rightarrow> real \<Rightarrow> point" where
  "mul a s = \<lparr>px = px a * s, py = py a * s\<rparr>"

definition dot :: "point \<Rightarrow> point \<Rightarrow> real" where
  "dot a b = px a * px b + py a * py b"

definition cross :: "point \<Rightarrow> point \<Rightarrow> real" where
  "cross a b = px a * py b - py a * px b"

definition len2 :: "point \<Rightarrow> real" where
  "len2 a = px a * px a + py a * py a"

definition len :: "point \<Rightarrow> real" where
  "len a = sqrt (len2 a)"

definition normalize :: "point \<Rightarrow> point" where
  "normalize v = (let l = len v in
     if l < 1 / 10 ^ 12 then \<lparr>px = 0, py = 0\<rparr>
     else \<lparr>px = px v / l, py = py v / l\<rparr>)"

text \<open>
  \<open>bboxOfPoints\<close> starts its four accumulators at plus or minus infinity; an
  accumulator is \<open>None\<close> while it still holds the infinity.  The result is the
  all-zero box when \<open>minX\<close> is not finite, that is, when no point was seen.
\<close>

record bbox =
  minX :: real
  minY :: real
  maxX :: real
  maxY :: real

definition accMin :: "real option \<Rightarrow> real \<Rightarrow> real option" where
  "accMin acc v = (case acc of None \<Rightarrow> Some v | Some m \<Rightarrow> Some (min m v))"

definition accMax :: "real option \<Rightarrow> real \<Rightarrow> real option" where
  "accMax acc v = (case acc of None \<Rightarrow> Some v | Some m \<Rightarrow> Some (max m v))"

fun bboxLoop :: "point list \<Rightarrow> real option \<times> real option \<times> real option \<times> real option
    \<Rightarrow> real option \<times> real option \<times> real option \<times> real option" where
  "bboxLoop [] acc = acc"
| "bboxLoop (p # ps) (mnX, mnY, mxX, mxY) =
     bboxLoop ps (accMin mnX (px p), accMin mnY (py p), accMax mxX (px p), accMax mxY (py p))"

definition bboxOfPoints :: "point list \<Rightarrow> bbox" where
  "bboxOfPoints points =
     (case bboxLoop points (None, None, None, None) of
        (Some mnX, Some mnY, Some mxX, Some mxY) \<Rightarrow>
          \<lparr>minX = mnX, minY = mnY, maxX = mxX, maxY = mxY\<rparr>
      | _ \<Rightarrow> \<lparr>minX = 0, minY = 0, maxX = 0, maxY = 0\<rparr>)"

text \<open>
  \<open>polygonArea\<close>: the loop adds one shoelace term per index \<open>i\<close>, pairing
  \<open>points[i]\<close> with \<open>points[(i + 1) % n]\<close>.
\<close>

definition shoelaceTerm :: "point list \<Rightarrow> nat \<Rightarrow> real" where
  "shoelaceTerm points i =
     (let p = points ! i; q = points ! ((i + 1) mod length points)
      in px p * py q - px q * py p)"

definition polygonArea :: "point list \<Rightarrow> real" where
  "polygonArea points = (\<Sum>i\<leftarrow>[0..<length points]. shoelaceTerm points i) / 2"

definition ensureCCW :: "point list \<Rightarrow> point list" where
  "ensureCCW points = (if polygonArea points < 0 then rev points else points)"

definition ensureCW :: "point list \<Rightarrow> point list" where
  "ensureCW points = (if polygonArea points > 0 then rev points else points)"

text \<open>
  \<open>nearestPointOnSegment\<close> returns the object \<open>{q, t}\<close>, here the pair
  \<open>(q, t)\<close>.
\<close>

definition nearestPointOnSegment :: "point \<Rightarrow> point \<Rightarrow> point \<Rightarrow> point \<times> real" where
  "nearestPointOnSegment p a b =
     (let ab = sub b a;
          t = clamp (dot (sub p a) ab / (len2 ab + 1 / 10 ^ 12)) 0 1;
          q = add a (mul ab t)
      in (q, t))"

text \<open>
  \<open>lineRaySegmentIntersection\<close> returns \<open>null\<close> (here \<open>None\<close>) or the object
  \<open>{t, u, p}\<close>, here the record \<open>hit\<close>.
\<close>

record hit =
  hit_t :: real
  hit_u :: real
  hit_p :: point

definition lineRaySegmentIntersection ::
    "point \<Rightarrow> point \<Rightarrow> point \<Rightarrow> point \<Rightarrow> real \<Rightarrow> hit option" where
  "lineRaySegmentIntersection rayP rayDir a b eps =
     (let v = rayDir;
          w = sub b a;
          denom = cross v w
      in if \<bar>denom\<bar> \<le> eps then None
         else
           let ap = sub a rayP;
               t = cross ap w / denom;
               u = cross ap v / denom
           in if t \<ge> - eps \<and> u \<ge> - eps \<and> u \<le> 1 + eps
              then Some \<lparr>hit_t = t, hit_u = u, hit_p = add rayP (mul v t)\<rparr>
              else None)"


definition polygonCentroid :: "point list \<Rightarrow> point" where
  "polygonCentroid points =
     (let A = polygonArea points in
      if \<bar>A\<bar> < 1 / 10 ^ 12 then
        (let b = bboxOfPoints points in pt ((minX b + maxX b) / 2) ((minY b + maxY b) / 2))
      else
        (let n = length points;
             cx = (\<Sum>i\<leftarrow>[0..<n]. (px (points ! i) + px (points ! ((i + 1) mod n))) * shoelaceTerm points i);
             cy = (\<Sum>i\<leftarrow>[0..<n]. (py (points ! i) + py (points ! ((i + 1) mod n))) * shoelaceTerm points i)
         in pt (cx / (6 * A)) (cy / (6 * A))))"

text \<open>
  \<open>pointInPolygon\<close>: the loop runs \<open>i\<close> over the indices with \<open>j\<close> the previous
  index, starting at \<open>j = n - 1\<close>; each crossing edge flips \<open>inside\<close>.  The
  division is only evaluated when the two \<open>y\<close> tests differ (short-circuit).
\<close>

definition edgeCrossesRay :: "point \<Rightarrow> point \<Rightarrow> point \<Rightarrow> bool" where
  "edgeCrossesRay p a b \<longleftrightarrow>
     ((py a > py p) \<noteq> (py b > py p)) \<and>
     px p < (px b - px a) * (py p - py a) / (py b - py a + 0) + px a"

definition pointInPolygon :: "point \<Rightarrow> point list \<Rightarrow> bool" where
  "pointInPolygon p poly =
     (let n = length poly in
      foldl (\<lambda>inside i.
               let a = poly ! i; b = poly ! (if i = 0 then n - 1 else i - 1)
               in if edgeCrossesRay p a b then \<not> inside else inside)
            False [0..<n])"

definition orient :: "point \<Rightarrow> point \<Rightarrow> point \<Rightarrow> real" where
  "orient a b c = cross (sub b a) (sub c a)"

definition onSegment :: "point \<Rightarrow> point \<Rightarrow> point \<Rightarrow> real \<Rightarrow> bool" where
  "onSegment a b p eps \<longleftrightarrow>
     min (px a) (px b) - eps \<le> px p \<and> px p \<le> max (px a) (px b) + eps \<and>
     min (py a) (py b) - eps \<le> py p \<and> py p \<le> max (py a) (py b) + eps \<and>
     \<bar>orient a b p\<bar> \<le> eps"

definition segmentsIntersect :: "point \<Rightarrow> point \<Rightarrow> point \<Rightarrow> point \<Rightarrow> real \<Rightarrow> bool" where
  "segmentsIntersect a b c d eps =
     (let o1 = orient a b c; o2 = orient a b d; o3 = orient c d a; o4 = orient c d b in
      if ((o1 > eps \<and> o2 < - eps) \<or> (o1 < - eps \<and> o2 > eps)) \<and>
         ((o3 > eps \<and> o4 < - eps) \<or> (o3 < - eps \<and> o4 > eps)) then True
      else if \<bar>o1\<bar> \<le> eps \<and> onSegment a b c eps then True
      else if \<bar>o2\<bar> \<le> eps \<and> onSegment a b d eps then True
      else if \<bar>o3\<bar> \<le> eps \<and> onSegment c d a eps then True
      else if \<bar>o4\<bar> \<le> eps \<and> onSegment c d b eps then True
      else False)"

text \<open>
  \<open>isSimplePolygon\<close>: the nested loops return \<open>false\<close> at the first pair of
  edges that is neither skipped nor free of intersection, and \<open>true\<close> when no
  pair is; \<open>edgePairOk\<close> is the body of the inner loop.
\<close>

definition edgePairOk :: "point list \<Rightarrow> real \<Rightarrow> nat \<Rightarrow> nat \<Rightarrow> bool" where
  "edgePairOk points eps i j =
     (let n = length points in
      if i = j then True
      else if (i + 1) mod n = j then True
      else if i = (j + 1) mod n then True
      else if segmentsIntersect (points ! i) (points ! ((i + 1) mod n))
                (points ! j) (points ! ((j + 1) mod n)) eps then False
      else True)"

definition isSimplePolygon :: "point list \<Rightarrow> real \<Rightarrow> bool" where
  "isSimplePolygon points eps =
     (let n = length points in
      if n < 3 then False
      else list_all (\<lambda>i. list_all (\<lambda>j. edgePairOk points eps i j) [i + 1..<n]) [0..<n])"

section \<open>Document model (src/studies/origami/playground/js/models.js)\<close>

text \<open>
  A shape of the editor is always a \<open>PolylineShape\<close>: it has an identifier, a
  type tag, a point array and a closed flag (so \<open>Array.isArray(s.points)\<close> holds
  for every shape).  The project is modelled by its shape list.
\<close>

datatype shapeType = Polyline | Polygon

record shape =
  shape_id :: string
  shape_type :: shapeType
  shape_points :: "point list"
  shape_closed :: bool

definition getShapeById :: "shape list \<Rightarrow> string \<Rightarrow> shape option" where
  "getShapeById shapes i = find (\<lambda>s. shape_id s = i) shapes"

section \<open>Ring builder (engine.js, in src/studies/origami/playground/js/view.js)\<close>

text \<open>
  A thrown \<open>Error\<close> is the value \<open>Error msg\<close> with the message of the source;
  \<open>TypeError\<close> stands for the exception JavaScript raises when a property of
  \<open>undefined\<close> is read.  \<open>natStr\<close> is the decimal rendering of a non-negative
  integer, as a template literal renders an array length.
\<close>

datatype error = Error string | TypeError

fun natStr :: "nat \<Rightarrow> string" where
  "natStr n = (if n < 10 then [''0123456789'' ! n]
               else natStr (n div 10) @ [''0123456789'' ! (n mod 10)])"

declare natStr.simps [simp del]

definition msgTooFewPoints :: string where
  "msgTooFewPoints = ''A closed shape needs at least 3 points.''"

definition msgSelfIntersecting :: string where
  "msgSelfIntersecting = ''This shape is self-intersecting. Please use a simple polygon.''"

definition msgNoClosedPolygon :: string where
  "msgNoClosedPolygon =
     ''No closed polygon found. Create one using Pen/Rectangle/Regular Polygon.''"

definition msgSelectedNotClosed :: string where
  "msgSelectedNotClosed =
     ''The selected shape is not closed. Please select a closed polygon.''"

definition msgMultipleOuter :: "nat \<Rightarrow> string" where
  "msgMultipleOuter k =
     ''Multiple outer candidates (disjoint closed polygons) were detected.'' @ [CHR 0x0A] @
     ''This demo supports only: '' @ [CHR 0x22] @
     ''one outer boundary + holes (inner closed polygons)'' @ [CHR 0x22] @ ''.'' @ [CHR 0x0A] @
     ''Number of polygons outside the outer boundary: '' @ natStr k"

definition msgSkeletonFailed :: string where
  "msgSkeletonFailed =
     ''Failed to generate a straight skeleton (the input may not be weakly simple, etc.).''"

text \<open>
  The error kinds of the specification, as the errors the source throws.
\<close>

definition NoClosedPolygon :: error where
  "NoClosedPolygon = Error msgNoClosedPolygon"

definition DegenerateRing :: error where
  "DegenerateRing = Error msgTooFewPoints"

definition SelfIntersectingRing :: error where
  "SelfIntersectingRing = Error msgSelfIntersecting"

definition MultipleDisjointOuterRings :: "nat \<Rightarrow> error" where
  "MultipleDisjointOuterRings k = Error (msgMultipleOuter k)"

definition SkeletonComputationFailed :: error where
  "SkeletonComputationFailed = Error msgSkeletonFailed"

text \<open>
  \<open>ringFromShape\<close>: \<open>collapseLoop\<close> is the loop that keeps a point unless it
  is within 1e-9 of the last kept point in both coordinates.
\<close>

fun collapseLoop :: "point list \<Rightarrow> point list \<Rightarrow> point list" where
  "collapseLoop [] clean = clean"
| "collapseLoop (p # ps) clean =
     collapseLoop ps
       (if clean = [] \<or> (\<bar>px (last clean) - px p\<bar> > 1 / 10 ^ 9 \<or>
                          \<bar>py (last clean) - py p\<bar> > 1 / 10 ^ 9)
        then clean @ [p] else clean)"

definition ringFromShape :: "shape \<Rightarrow> error + point list" where
  "ringFromShape s =
     (let pts = map (\<lambda>p. pt (px p) (py p)) (shape_points s) in
      if length pts < 3 then Inl (Error msgTooFewPoints)
      else
        let clean = collapseLoop pts [] in
        if length clean < 3 then Inl (Error msgTooFewPoints)
        else if \<not> isSimplePolygon clean (1 / 10 ^ 9) then Inl (Error msgSelfIntersecting)
        else Inr clean)"

record ringInfo =
  info_id :: string
  info_ring :: "point list"
  info_area :: real
  info_absArea :: real
  info_centroid :: point

definition ringInfoOf :: "shape \<Rightarrow> error + ringInfo" where
  "ringInfoOf s =
     (case ringFromShape s of
        Inl e \<Rightarrow> Inl e
      | Inr ring \<Rightarrow>
          let area = polygonArea ring; centroid = polygonCentroid ring
          in Inr \<lparr>info_id = shape_id s, info_ring = ring, info_area = area,
                  info_absArea = \<bar>area\<bar>, info_centroid = centroid\<rparr>)"

text \<open>
  \<open>mapResult f\<close> is \<open>Array.map\<close> with a callback that may throw: the first
  error, in list order, is the outcome.
\<close>

fun mapResult :: "('a \<Rightarrow> error + 'b) \<Rightarrow> 'a list \<Rightarrow> error + 'b list" where
  "mapResult f [] = Inr []"
| "mapResult f (z # zs) =
     (case f z of
        Inl e \<Rightarrow> Inl e
      | Inr v \<Rightarrow> (case mapResult f zs of Inl e \<Rightarrow> Inl e | Inr vs \<Rightarrow> Inr (v # vs)))"

definition closedShapes :: "shape list \<Rightarrow> shape list" where
  "closedShapes shapes = filter (\<lambda>s. shape_type s = Polygon \<and> shape_closed s) shapes"

text \<open>
  A selected identifier counts when it is truthy: neither \<open>null\<close> nor the empty
  string.
\<close>

definition truthyId :: "string option \<Rightarrow> bool" where
  "truthyId selectedId = (case selectedId of None \<Rightarrow> False | Some i \<Rightarrow> i \<noteq> [])"

definition selectedShape :: "shape list \<Rightarrow> string option \<Rightarrow> shape option" where
  "selectedShape shapes selectedId =
     (case selectedId of
        None \<Rightarrow> None
      | Some i \<Rightarrow> if i \<noteq> [] then getShapeById shapes i else None)"

text \<open>
  The guard \<open>selectedId && selected && !(selected.type === 'polygon' &&
  selected.closed)\<close> that rejects a selected shape which is not closed.
\<close>

definition selectedNotClosed :: "string option \<Rightarrow> shape option \<Rightarrow> bool" where
  "selectedNotClosed selectedId selected =
     (if truthyId selectedId then
        (case selected of
           None \<Rightarrow> False
         | Some sel \<Rightarrow> if shape_type sel = Polygon \<and> shape_closed sel then False else True)
      else False)"

definition largestRing :: "ringInfo list \<Rightarrow> ringInfo" where
  "largestRing ringInfos =
     foldl (\<lambda>a b. if info_absArea b > info_absArea a then b else a) (hd ringInfos) ringInfos"

definition chooseOuter :: "shape option \<Rightarrow> ringInfo list \<Rightarrow> ringInfo" where
  "chooseOuter selected ringInfos =
     (let outer =
        (case selected of
           None \<Rightarrow> None
         | Some sel \<Rightarrow>
             if shape_type sel = Polygon \<and> shape_closed sel
             then find (\<lambda>r. info_id r = shape_id sel) ringInfos
             else None)
      in case outer of Some out \<Rightarrow> out | None \<Rightarrow> largestRing ringInfos)"

text \<open>
  The classification loop skips the ring infos that carry the outer ring's
  identifier and pushes every other one to \<open>holes\<close> or to \<open>outsiders\<close>.
\<close>

fun classifyLoop :: "ringInfo \<Rightarrow> ringInfo list \<Rightarrow> ringInfo list \<times> ringInfo list
    \<Rightarrow> ringInfo list \<times> ringInfo list" where
  "classifyLoop outer [] acc = acc"
| "classifyLoop outer (info # infos) (holes, outsiders) =
     (if info_id info = info_id outer then classifyLoop outer infos (holes, outsiders)
      else if pointInPolygon (info_centroid info) (info_ring outer)
      then classifyLoop outer infos (holes @ [info], outsiders)
      else classifyLoop outer infos (holes, outsiders @ [info]))"

text \<open>
  \<open>closeRing\<close> turns a ring into the array of \<open>[x, y]\<close> arrays with the first
  vertex pushed again at the end; reading \<open>r[0].x\<close> of an empty ring raises.
\<close>

definition closeRing :: "point list \<Rightarrow> error + real list list" where
  "closeRing r =
     (case r of
        [] \<Rightarrow> Inl TypeError
      | r0 # _ \<Rightarrow> Inr (map (\<lambda>p. [px p, py p]) r @ [[px r0, py r0]]))"

text \<open>
  \<open>normalizedRings\<close> is \<open>buildRingsFromProject\<close> up to and including the
  orientation step: it yields the list \<open>[outerCCW, ...holeRings]\<close>.
\<close>

definition normalizedRings :: "shape list \<Rightarrow> string option \<Rightarrow> error + point list list" where
  "normalizedRings shapes selectedId =
     (let closed = closedShapes shapes in
      if closed = [] then Inl (Error msgNoClosedPolygon)
      else
        let selected = selectedShape shapes selectedId in
        if selectedNotClosed selectedId selected
        then Inl (Error msgSelectedNotClosed)
        else
          case mapResult ringInfoOf closed of
            Inl e \<Rightarrow> Inl e
          | Inr ringInfos \<Rightarrow>
              let outer = chooseOuter selected ringInfos;
                  (holes, outsiders) = classifyLoop outer ringInfos ([], [])
              in if length outsiders > 0 then Inl (Error (msgMultipleOuter (length outsiders)))
                 else
                   let outerCCW = ensureCCW (info_ring outer);
                       holeRings = map (\<lambda>h. ensureCW (info_ring h)) holes
                   in Inr (outerCCW # holeRings))"

record ringsResult =
  rings :: "real list list list"
  outerRing :: "point list"

definition buildRingsFromProject :: "shape list \<Rightarrow> string option \<Rightarrow> error + ringsResult" where
  "buildRingsFromProject shapes selectedId =
     (case normalizedRings shapes selectedId of
        Inl e \<Rightarrow> Inl e
      | Inr nrings \<Rightarrow>
          (case mapResult closeRing nrings of
             Inl e \<Rightarrow> Inl e
           | Inr rs \<Rightarrow> Inr \<lparr>rings = rs, outerRing = hd nrings\<rparr>))"

section \<open>Quantized edge keys (utils.js, in src/unnamed/part_001)\<close>

text \<open>
  \<open>Math.round\<close> rounds to the nearest integer, a tie going up.  The rendering
  of a number inside a template literal is a primitive of the language; the key
  functions take it as the parameter \<open>str\<close>.  Strings are compared
  lexicographically by character code.
\<close>

definition jsRound :: "real \<Rightarrow> real" where
  "jsRound v = of_int \<lfloor>v + 1 / 2\<rfloor>"

definition quantizePoint :: "point \<Rightarrow> real \<Rightarrow> point" where
  "quantizePoint p q = \<lparr>px = jsRound (px p / q) * q, py = jsRound (py p / q) * q\<rparr>"

definition keyForUndirectedEdge :: "(real \<Rightarrow> string) \<Rightarrow> point \<Rightarrow> point \<Rightarrow> real \<Rightarrow> string" where
  "keyForUndirectedEdge str a b q =
     (let A = quantizePoint a q;
          B = quantizePoint b q;
          k1 = str (px A) @ '','' @ str (py A);
          k2 = str (px B) @ '','' @ str (py B)
      in if k1 < k2 then k1 @ ''|'' @ k2 else k2 @ ''|'' @ k1)"

text \<open>
  \<open>decimalStr\<close> writes a number with a terminating decimal expansion in plain
  decimal notation (at most 17 fractional digits), the way JavaScript renders
  such a number of moderate size.  It instantiates \<open>str\<close> in the examples.
\<close>

fun fracDigits :: "nat \<Rightarrow> real \<Rightarrow> string" where
  "fracDigits 0 r = []"
| "fracDigits (Suc k) r =
     (if r = 0 then []
      else (''0123456789'' ! nat \<lfloor>r * 10\<rfloor>) # fracDigits k (r * 10 - of_int \<lfloor>r * 10\<rfloor>))"

definition decimalStr :: "real \<Rightarrow> string" where
  "decimalStr v =
     (let m = \<bar>v\<bar>; ip = \<lfloor>m\<rfloor> in
      (if v < 0 then ''-'' else []) @ natStr (nat ip) @
      (if m - of_int ip = 0 then [] else ''.'' @ fracDigits 17 (m - of_int ip)))"

section \<open>Crease extractor (engine.js)\<close>

text \<open>
  The skeleton of the external solver: \<open>vertices\<close> is an array of
  \<open>[x, y, collapseTime]\<close> triples and \<open>polygons\<close> an array of index cycles.
  Reading an array out of range gives \<open>undefined\<close>, here \<open>None\<close>.
\<close>

record skeleton =
  vertices :: "(real \<times> real \<times> real) list"
  polygons :: "nat list list"

definition nthOpt :: "'a list \<Rightarrow> nat \<Rightarrow> 'a option" where
  "nthOpt zs i = (if i < length zs then Some (zs ! i) else None)"

text \<open>
  \<open>extractInteriorEdgesFromSkeleton\<close>.  The edge-count \<open>Map\<close> is an association
  list in insertion order; its key \<open>`${i0}|${i1}`\<close> is the pair \<open>(i0, i1)\<close>, which
  the string determines and from which the second loop reads both indices
  back.  \<open>bumpCount\<close> is \<open>edgeCount.set(key, (edgeCount.get(key) ?? 0) + 1)\<close>: an
  existing key keeps its position, a new key goes to the end.
\<close>

fun bumpCount :: "nat \<times> nat \<Rightarrow> ((nat \<times> nat) \<times> nat) list \<Rightarrow> ((nat \<times> nat) \<times> nat) list" where
  "bumpCount k [] = [(k, 1)]"
| "bumpCount k ((k', c) # rest) =
     (if k = k' then (k', c + 1) # rest else (k', c) # bumpCount k rest)"

definition countEdge :: "nat list \<Rightarrow> ((nat \<times> nat) \<times> nat) list \<Rightarrow> nat \<Rightarrow> ((nat \<times> nat) \<times> nat) list" where
  "countEdge poly edgeCount i =
     (let a = poly ! i; b = poly ! ((i + 1) mod length poly) in
      if a = b then edgeCount
      else bumpCount (min a b, max a b) edgeCount)"

definition countFace :: "((nat \<times> nat) \<times> nat) list \<Rightarrow> nat list \<Rightarrow> ((nat \<times> nat) \<times> nat) list" where
  "countFace edgeCount poly = foldl (countEdge poly) edgeCount [0..<length poly]"

definition edgeCounts :: "nat list list \<Rightarrow> ((nat \<times> nat) \<times> nat) list" where
  "edgeCounts polys = foldl countFace [] polys"

definition interiorEdge :: "(real \<times> real \<times> real) list \<Rightarrow> (nat \<times> nat) \<times> nat \<Rightarrow> (nat \<times> nat) option" where
  "interiorEdge verts entry =
     (case entry of ((i0, i1), count) \<Rightarrow>
        if count < 2 then None
        else
          (case (nthOpt verts i0, nthOpt verts i1) of
             (Some (x0, y0, t0), Some (x1, y1, t1)) \<Rightarrow>
               let dx = x0 - x1; dy = y0 - y1 in
               if dx * dx + dy * dy < 1 / 10 ^ 10 then None else Some (i0, i1)
           | _ \<Rightarrow> None))"

definition extractInteriorEdgesFromSkeleton :: "skeleton \<Rightarrow> (nat \<times> nat) list" where
  "extractInteriorEdgesFromSkeleton sk =
     List.map_filter (interiorEdge (vertices sk)) (edgeCounts (polygons sk))"

text \<open>
  \<open>farthestPair\<close> is only called with at least two points.  Its best squared
  distance starts at minus infinity, here \<open>None\<close>.
\<close>

definition farthestStep :: "point list \<Rightarrow> nat \<Rightarrow> nat \<times> nat \<times> real option \<Rightarrow> nat
    \<Rightarrow> nat \<times> nat \<times> real option" where
  "farthestStep points i best j =
     (case best of (bestI, bestJ, bestD2) \<Rightarrow>
        let dx = px (points ! i) - px (points ! j);
            dy = py (points ! i) - py (points ! j);
            d2 = dx * dx + dy * dy
        in if (case bestD2 of None \<Rightarrow> True | Some m \<Rightarrow> d2 > m) then (i, j, Some d2)
           else (bestI, bestJ, bestD2))"

definition farthestPair :: "point list \<Rightarrow> point \<times> point" where
  "farthestPair points =
     (let n = length points;
          best = foldl (\<lambda>best i. foldl (farthestStep points i) best [i + 1..<n])
                   (0, 1, None) [0..<n]
      in case best of (bestI, bestJ, bestD2) \<Rightarrow> (points ! bestI, points ! bestJ))"

record faceVertex =
  fv_i :: nat
  fv_x :: real
  fv_y :: real
  fv_t :: real

datatype creaseKind = KindM | KindV

record crease =
  crease_a :: point
  crease_b :: point
  crease_kind :: creaseKind
  crease_source :: string

definition EPS_TIME :: real where
  "EPS_TIME = 1 / 10 ^ 7"

text \<open>
  \<open>faceOf\<close> is \<open>poly.map(i => ({i, x: verts[i][0], ...}))\<close>; an index out of
  range raises.
\<close>

definition faceOf :: "(real \<times> real \<times> real) list \<Rightarrow> nat list \<Rightarrow> error + faceVertex list" where
  "faceOf verts poly =
     mapResult (\<lambda>i. case nthOpt verts i of
                      None \<Rightarrow> Inl TypeError
                    | Some (vx, vy, vt) \<Rightarrow> Inr \<lparr>fv_i = i, fv_x = vx, fv_y = vy, fv_t = vt\<rparr>) poly"

text \<open>
  \<open>bestHit\<close> is the loop over the boundary segments of the face that keeps the
  hit of smallest ray parameter above 1e-6.
\<close>

definition bestHitStep :: "point list \<Rightarrow> point \<Rightarrow> point \<Rightarrow> hit option \<Rightarrow> nat \<Rightarrow> hit option" where
  "bestHitStep face2D p dir best i =
     (let a = face2D ! i; b = face2D ! ((i + 1) mod length face2D) in
      case lineRaySegmentIntersection p dir a b (1 / 10 ^ 9) of
        None \<Rightarrow> best
      | Some h \<Rightarrow>
          if hit_t h \<le> 1 / 10 ^ 6 then best
          else (case best of
                  None \<Rightarrow> Some h
                | Some bst \<Rightarrow> if hit_t h < hit_t bst then Some h else best))"

definition bestHit :: "point list \<Rightarrow> point \<Rightarrow> point \<Rightarrow> hit option" where
  "bestHit face2D p dir = foldl (bestHitStep face2D p dir) None [0..<length face2D]"

text \<open>
  \<open>perpendicularOf\<close> is the body of the loop over the vertices of a face up to
  the point where the segment \<open>(p, q)\<close> is known; \<open>None\<close> is a \<open>continue\<close>.
\<close>

definition perpendicularOf :: "point list \<Rightarrow> point \<Rightarrow> point \<Rightarrow> faceVertex \<Rightarrow> (point \<times> point) option" where
  "perpendicularOf face2D e0 d v =
     (if fv_t v \<le> EPS_TIME then None
      else
        let p = pt (fv_x v) (fv_y v);
            foot = add e0 (mul d (dot (sub p e0) d));
            dir = normalize (sub foot p)
        in if px dir = 0 \<and> py dir = 0 then None
           else (case bestHit face2D p dir of
                   None \<Rightarrow> None
                 | Some best \<Rightarrow> Some (p, hit_p best)))"

text \<open>
  \<open>faceSegments\<close> lists, for one face, the segments that reach the \<open>seen\<close>
  test, in the order of the loop.
\<close>

definition faceSegments :: "faceVertex list \<Rightarrow> (point \<times> point) list" where
  "faceSegments face =
     (let boundaryPts = map (\<lambda>v. pt (fv_x v) (fv_y v))
                          (filter (\<lambda>v. \<bar>fv_t v\<bar> \<le> EPS_TIME) face) in
      if length boundaryPts < 2 then []
      else
        (case farthestPair boundaryPts of (e0, e1) \<Rightarrow>
           let d = normalize (sub e1 e0) in
           if px d = 0 \<and> py d = 0 then []
           else
             let face2D = map (\<lambda>v. pt (fv_x v) (fv_y v)) face
             in List.map_filter (perpendicularOf face2D e0 d) face))"

text \<open>
  \<open>addValley\<close> is the end of the loop body: the key test against \<open>seen\<close> and
  the push.  The state is the pair of \<open>creases\<close> and \<open>seen\<close>.
\<close>

definition addValley :: "(real \<Rightarrow> string) \<Rightarrow> crease list \<times> string set \<Rightarrow> point \<times> point
    \<Rightarrow> crease list \<times> string set" where
  "addValley str st seg =
     (case st of (creases, seen) \<Rightarrow>
      case seg of (p, q) \<Rightarrow>
        let key = keyForUndirectedEdge str p q (1 / 10 ^ 2) in
        if key \<in> seen then (creases, seen)
        else (creases @ [\<lparr>crease_a = p, crease_b = q, crease_kind = KindV,
                            crease_source = ''perp''\<rparr>],
              insert key seen))"

fun perpendicularsLoop :: "(real \<Rightarrow> string) \<Rightarrow> (real \<times> real \<times> real) list \<Rightarrow> nat list list
    \<Rightarrow> crease list \<times> string set \<Rightarrow> error + crease list" where
  "perpendicularsLoop str verts [] st = Inr (fst st)"
| "perpendicularsLoop str verts (poly # polys) st =
     (case faceOf verts poly of
        Inl e \<Rightarrow> Inl e
      | Inr face \<Rightarrow> perpendicularsLoop str verts polys (foldl (addValley str) st (faceSegments face)))"

definition buildPerpendicularsFromFaces :: "(real \<Rightarrow> string) \<Rightarrow> skeleton \<Rightarrow> error + crease list" where
  "buildPerpendicularsFromFaces str sk =
     perpendicularsLoop str (vertices sk) (polygons sk) ([], {})"

section \<open>Engine run (engine.js)\<close>

text \<open>
  The external solver is the parameter \<open>solver\<close>: it maps the rings to a
  skeleton, or to a falsy value (\<open>None\<close>).  Loading the solver is not modelled.
\<close>

record viewport =
  vp_w :: real
  vp_h :: real

record resultBundle =
  res_rings :: "real list list list"
  res_skeleton :: skeleton
  res_creases :: "crease list"
  res_cutLine :: "point \<times> point"

definition mountainCrease :: "(real \<times> real \<times> real) list \<Rightarrow> nat \<times> nat \<Rightarrow> crease" where
  "mountainCrease verts e =
     (case e of (i0, i1) \<Rightarrow>
      case (verts ! i0, verts ! i1) of ((x0, y0, t0), (x1, y1, t1)) \<Rightarrow>
        \<lparr>crease_a = pt x0 y0, crease_b = pt x1 y1, crease_kind = KindM,
         crease_source = ''skeleton''\<rparr>)"

definition cutLineOf :: "skeleton \<Rightarrow> viewport \<Rightarrow> point \<times> point" where
  "cutLineOf sk vp =
     (let allPts = map (\<lambda>v. case v of (vx, vy, vt) \<Rightarrow> pt vx vy) (vertices sk);
          bb = bboxOfPoints allPts;
          yMid = (minY bb + maxY bb) / 2
      in (pt 0 yMid, pt (vp_w vp) yMid))"

definition run :: "(real \<Rightarrow> string) \<Rightarrow> (real list list list \<Rightarrow> skeleton option)
    \<Rightarrow> shape list \<Rightarrow> string option \<Rightarrow> viewport \<Rightarrow> error + resultBundle" where
  "run str solver shapes selectedId vp =
     (case buildRingsFromProject shapes selectedId of
        Inl e \<Rightarrow> Inl e
      | Inr br \<Rightarrow>
          (case solver (rings br) of
             None \<Rightarrow> Inl (Error msgSkeletonFailed)
           | Some sk \<Rightarrow>
               let interiorEdges = extractInteriorEdgesFromSkeleton sk;
                   mountains = map (mountainCrease (vertices sk)) interiorEdges
               in case buildPerpendicularsFromFaces str sk of
                    Inl e \<Rightarrow> Inl e
                  | Inr perps \<Rightarrow>
                      Inr \<lparr>res_rings = rings br, res_skeleton = sk,
                           res_creases = mountains @ perps,
                           res_cutLine = cutLineOf sk vp\<rparr>))"

section \<open>Orientation as computed in double precision (utils.js)\<close>




text \<open>
  \<open>polygonAreaFl fl\<close> is the loop of \<open>polygonArea\<close> with the result of every
  multiplication, subtraction, addition and of the final division passed
  through the rounding function \<open>fl\<close>, in the order in which the code
  evaluates \<open>a += p.x * q.y - q.x * p.y\<close>; \<open>ensureCCWFl fl\<close> and \<open>ensureCWFl fl\<close>
  are \<open>ensureCCW\<close> and \<open>ensureCW\<close> over it.  With \<open>fl = roundDouble\<close> this is the
  computation of the code; with the identity it is \<open>polygonArea\<close>.
\<close>

definition shoelaceTermFl :: "(real \<Rightarrow> real) \<Rightarrow> point list \<Rightarrow> nat \<Rightarrow> real" where
  "shoelaceTermFl fl points i =
     (let p = points ! i; q = points ! ((i + 1) mod length points)
      in fl (fl (px p * py q) - fl (px q * py p)))"

definition polygonAreaFl :: "(real \<Rightarrow> real) \<Rightarrow> point list \<Rightarrow> real" where
  "polygonAreaFl fl points =
     fl (foldl (\<lambda>a i. fl (a + shoelaceTermFl fl points i)) 0 [0..<length points] / 2)"



section \<open>Auxiliary notions used in the statements and proofs\<close>

text \<open>
  \<open>solvesRaySystem\<close> is the linear system of the ray-segment intersection as
  the specification words it: the point at ray parameter \<open>t\<close> is the point at
  segment parameter \<open>u\<close>.
\<close>

definition solvesRaySystem :: "point \<Rightarrow> point \<Rightarrow> point \<Rightarrow> point \<Rightarrow> real \<Rightarrow> real \<Rightarrow> bool" where
  "solvesRaySystem p v a b t u \<longleftrightarrow> add p (mul v t) = add a (mul (sub b a) u)"

text \<open>
  Duplicate collapsing as the specification words it: a point is a near
  duplicate of the previously kept point when both coordinates are within 1e-9
  of it; the first point is kept, and every later point is kept unless it is a
  near duplicate of the point kept last.
\<close>

definition nearDuplicate :: "point \<Rightarrow> point \<Rightarrow> bool" where
  "nearDuplicate prev p \<longleftrightarrow>
     \<bar>px prev - px p\<bar> \<le> 1 / 10 ^ 9 \<and> \<bar>py prev - py p\<bar> \<le> 1 / 10 ^ 9"

fun keepAfter :: "point \<Rightarrow> point list \<Rightarrow> point list" where
  "keepAfter prev [] = []"
| "keepAfter prev (q # qs) =
     (if nearDuplicate prev q then keepAfter prev qs else q # keepAfter q qs)"

definition collapseDuplicates :: "point list \<Rightarrow> point list" where
  "collapseDuplicates ps = (case ps of [] \<Rightarrow> [] | p # qs \<Rightarrow> p # keepAfter p qs)"

text \<open>
  The explicit-closure form of a ring: its coordinate pairs followed by the
  coordinate pair of its first vertex; \<open>coordsToPoint\<close> reads a coordinate pair
  back as a point.
\<close>

definition explicitClosure :: "point list \<Rightarrow> real list list" where
  "explicitClosure r = map (\<lambda>p. [px p, py p]) r @ [[px (hd r), py (hd r)]]"


text \<open>
  \<open>inCycle poly a b\<close>: the undirected pair of \<open>a\<close> and \<open>b\<close> is an edge of the
  boundary cycle of the face \<open>poly\<close>, that is, \<open>a\<close> and \<open>b\<close> are cyclically
  consecutive entries of it, in either order.  \<open>faceEdges poly\<close> lists the keys
  that the counting loop of \<open>extractInteriorEdgesFromSkeleton\<close> bumps for the
  face, in order.
\<close>

definition inCycle :: "nat list \<Rightarrow> nat \<Rightarrow> nat \<Rightarrow> bool" where
  "inCycle poly a b =
     list_ex (\<lambda>i. (poly ! i = a \<and> poly ! ((i + 1) mod length poly) = b) \<or>
                    (poly ! i = b \<and> poly ! ((i + 1) mod length poly) = a))
       [0..<length poly]"

definition edgeKeyAt :: "nat list \<Rightarrow> nat \<Rightarrow> (nat \<times> nat) option" where
  "edgeKeyAt poly i =
     (let a = poly ! i; b = poly ! ((i + 1) mod length poly) in
      if a = b then None else Some (min a b, max a b))"

definition faceEdges :: "nat list \<Rightarrow> (nat \<times> nat) list" where
  "faceEdges poly = List.map_filter (edgeKeyAt poly) [0..<length poly]"

text \<open>
  The squared distance of two skeleton vertices, as the degeneracy filter
  computes it.
\<close>

definition vertexDist2 :: "real \<times> real \<times> real \<Rightarrow> real \<times> real \<times> real \<Rightarrow> real" where
  "vertexDist2 v0 v1 =
     (fst v0 - fst v1) * (fst v0 - fst v1) +
     (fst (snd v0) - fst (snd v1)) * (fst (snd v0) - fst (snd v1))"

text \<open>
  Notions for the valley creases: the key of a derived segment and of an
  emitted crease at the tolerance 1e-2 of \<open>buildPerpendicularsFromFaces\<close>; a
  derived segment of a skeleton (a segment that some face of it sends to the
  \<open>seen\<close> test); and two segments having the same quantized endpoints as
  undirected segments.
\<close>

definition segmentKey :: "(real \<Rightarrow> string) \<Rightarrow> point \<times> point \<Rightarrow> string" where
  "segmentKey str seg = keyForUndirectedEdge str (fst seg) (snd seg) (1 / 10 ^ 2)"

definition creaseKey :: "(real \<Rightarrow> string) \<Rightarrow> crease \<Rightarrow> string" where
  "creaseKey str c = keyForUndirectedEdge str (crease_a c) (crease_b c) (1 / 10 ^ 2)"

definition derivedSegment :: "skeleton \<Rightarrow> point \<times> point \<Rightarrow> bool" where
  "derivedSegment sk seg =
     list_ex (\<lambda>poly. case faceOf (vertices sk) poly of
                        Inl e \<Rightarrow> False
                      | Inr face \<Rightarrow> seg \<in> set (faceSegments face))
       (polygons sk)"

definition sameQuantizedEdge :: "point \<times> point \<Rightarrow> point \<times> point \<Rightarrow> bool" where
  "sameQuantizedEdge s1 s2 =
     (let q = 1 / 10 ^ 2;
          a1 = quantizePoint (fst s1) q; b1 = quantizePoint (snd s1) q;
          a2 = quantizePoint (fst s2) q; b2 = quantizePoint (snd s2) q
      in (a1 = a2 \<and> b1 = b2) \<or> (a1 = b2 \<and> b1 = a2))"

text \<open>
  The invariant of the \<open>creases\<close>/\<open>seen\<close> state of
  \<open>buildPerpendicularsFromFaces\<close>: \<open>seen\<close> holds exactly the keys of the creases
  pushed so far, no two of which share a key, and every crease is a valley
  crease.
\<close>

definition seenInv :: "(real \<Rightarrow> string) \<Rightarrow> crease list \<times> string set \<Rightarrow> bool" where
  "seenInv str st \<longleftrightarrow>
     snd st = creaseKey str ` set (fst st) \<and> distinct (map (creaseKey str) (fst st)) \<and>
     list_all (\<lambda>c. crease_kind c = KindV) (fst st)"

definition valleyCrease :: "point \<Rightarrow> point \<Rightarrow> crease" where
  "valleyCrease p q =
     \<lparr>crease_a = p, crease_b = q, crease_kind = KindV, crease_source = ''perp''\<rparr>"

text \<open>
  \<open>strNat\<close> reads a string of decimal digits back as a number.
\<close>

definition digitValue :: "char \<Rightarrow> nat" where
  "digitValue c = of_char c - 48"

definition strNat :: "string \<Rightarrow> nat" where
  "strNat s = foldl (\<lambda>a c. 10 * a + digitValue c) 0 s"

text \<open>
  \<open>revIdx n\<close> maps the index of a cyclic edge of a reversed \<open>n\<close>-gon to the index
  of the same edge in the original polygon.
\<close>

definition revIdx :: "nat \<Rightarrow> nat \<Rightarrow> nat" where
  "revIdx n i = (if Suc i = n then i else n - 2 - i)"

section \<open>Example scenes\<close>

text \<open>
  Two disjoint closed squares, a closed triangle inside the first square, an
  open polyline, and a closed shape whose last two points coincide.
\<close>

definition squareA :: shape where
  "squareA = \<lparr>shape_id = ''shape_a'', shape_type = Polygon,
     shape_points = [pt 0 0, pt 10 0, pt 10 10, pt 0 10], shape_closed = True\<rparr>"

definition squareB :: shape where
  "squareB = \<lparr>shape_id = ''shape_b'', shape_type = Polygon,
     shape_points = [pt 20 0, pt 30 0, pt 30 10, pt 20 10], shape_closed = True\<rparr>"

definition triangleC :: shape where
  "triangleC = \<lparr>shape_id = ''shape_c'', shape_type = Polygon,
     shape_points = [pt 2 2, pt 4 2, pt 3 4], shape_closed = True\<rparr>"

definition openLine :: shape where
  "openLine = \<lparr>shape_id = ''shape_l'', shape_type = Polyline,
     shape_points = [pt 0 0, pt 5 5], shape_closed = False\<rparr>"

definition sliverD :: shape where
  "sliverD = \<lparr>shape_id = ''shape_d'', shape_type = Polygon,
     shape_points = [pt 0 0, pt 1 0, pt 1 0], shape_closed = True\<rparr>"

definition sliverE :: shape where
  "sliverE = \<lparr>shape_id = ''shape_e'', shape_type = Polygon,
     shape_points = [pt 0 0, pt 1 0, pt 1 0], shape_closed = True\<rparr>"

definition bowtieF :: shape where
  "bowtieF = \<lparr>shape_id = ''shape_f'', shape_type = Polygon,
     shape_points = [pt 0 0, pt 2 2, pt 2 0, pt 0 2], shape_closed = True\<rparr>"

definition bowtieG :: shape where
  "bowtieG = \<lparr>shape_id = ''shape_g'', shape_type = Polygon,
     shape_points = [pt 0 0, pt 2 2, pt 2 0, pt 0 2], shape_closed = True\<rparr>"

definition infoA :: ringInfo where
  "infoA = \<lparr>info_id = ''shape_a'', info_ring = [pt 0 0, pt 10 0, pt 10 10, pt 0 10],
     info_area = 100, info_absArea = 100, info_centroid = pt 5 5\<rparr>"

definition infoB :: ringInfo where
  "infoB = \<lparr>info_id = ''shape_b'', info_ring = [pt 20 0, pt 30 0, pt 30 10, pt 20 10],
     info_area = 100, info_absArea = 100, info_centroid = pt 25 5\<rparr>"

definition infoC :: ringInfo where
  "infoC = \<lparr>info_id = ''shape_c'', info_ring = [pt 2 2, pt 4 2, pt 3 4],
     info_area = 2, info_absArea = 2, info_centroid = pt 3 (8 / 3)\<rparr>"


text \<open>
  Example skeletons: the skeleton of a square of side 10 (four triangular faces
  around the apex), a skeleton whose vertices 0 and 1 coincide, and two
  one-face skeletons whose two raised vertices are 0.004 and 0.002 apart.
\<close>

definition squareSkeleton :: skeleton where
  "squareSkeleton =
     \<lparr>vertices = [(0, 0, 0), (10, 0, 0), (10, 10, 0), (0, 10, 0), (5, 5, 5)],
      polygons = [[0, 1, 4], [1, 2, 4], [2, 3, 4], [3, 0, 4]]\<rparr>"

definition coincidentSkeleton :: skeleton where
  "coincidentSkeleton =
     \<lparr>vertices = [(0, 0, 0), (0, 0, 0), (1, 0, 0), (0, 1, 0)],
      polygons = [[0, 1, 2], [1, 0, 3]]\<rparr>"

definition straddlingSkeleton :: skeleton where
  "straddlingSkeleton =
     \<lparr>vertices = [(0, 0, 0), (1, 0, 0), (507 / 1000, 1, 1), (503 / 1000, 1, 1)],
      polygons = [[0, 1, 2, 3]]\<rparr>"

definition sameCellSkeleton :: skeleton where
  "sameCellSkeleton =
     \<lparr>vertices = [(0, 0, 0), (1, 0, 0), (503 / 1000, 1, 1), (501 / 1000, 1, 1)],
      polygons = [[0, 1, 2, 3]]\<rparr>"

text \<open>
  The result of a run on the single square \<open>squareA\<close> in a 1000 by 700
  viewport, when the solver returns \<open>squareSkeleton\<close>.
\<close>

definition squareResult :: resultBundle where
  "squareResult =
     \<lparr>res_rings = [[[0, 0], [10, 0], [10, 10], [0, 10], [0, 0]]],
      res_skeleton = squareSkeleton,
      res_creases =
        [\<lparr>crease_a = pt 10 0, crease_b = pt 5 5, crease_kind = KindM, crease_source = ''skeleton''\<rparr>,
         \<lparr>crease_a = pt 0 0, crease_b = pt 5 5, crease_kind = KindM, crease_source = ''skeleton''\<rparr>,
         \<lparr>crease_a = pt 10 10, crease_b = pt 5 5, crease_kind = KindM, crease_source = ''skeleton''\<rparr>,
         \<lparr>crease_a = pt 0 10, crease_b = pt 5 5, crease_kind = KindM, crease_source = ''skeleton''\<rparr>,
         valleyCrease (pt 5 5) (pt 5 0), valleyCrease (pt 5 5) (pt 10 5),
         valleyCrease (pt 5 5) (pt 5 10), valleyCrease (pt 5 5) (pt 0 5)],
      res_cutLine = (pt 0 5, pt 1000 5)\<rparr>"

section \<open>Geometry kernel: orientation\<close>

lemma area_sum: "polygonArea ps = (\<Sum>i<length ps. shoelaceTerm ps i) / 2"
  by (simp add: polygonArea_def interv_sum_list_conv_sum_set_nat atLeast0LessThan)

lemma revIdx_lt: "i < n \<Longrightarrow> revIdx n i < n"
  by (auto simp add: revIdx_def)

lemma revIdx_invol: "i < n \<Longrightarrow> revIdx n (revIdx n i) = i"
  by (auto simp add: revIdx_def)

lemma shoelace_rev:
  assumes "i < length ps"
  shows "shoelaceTerm (rev ps) i = - shoelaceTerm ps (revIdx (length ps) i)"
proof (cases "Suc i = length ps")
  case True
  then have "(i + 1) mod length ps = 0" by simp
  moreover have "rev ps ! 0 = ps ! i" "rev ps ! i = ps ! 0"
    using True by (simp_all add: rev_nth flip: True)
  ultimately show ?thesis using True
    by (simp add: shoelaceTerm_def revIdx_def Let_def)
next
  case False
  with assms have lt: "Suc i < length ps" by simp
  define n where "n = length ps"
  define j where "j = n - 2 - i"
  have jn: "Suc j < n" "Suc (j + i) < n" "n - Suc i = Suc j" "n - Suc (Suc i) = j"
    using lt by (simp_all add: j_def n_def)
  have m: "(i + 1) mod n = Suc i" "(j + 1) mod n = Suc j"
    using lt jn by (simp_all add: n_def)
  have r: "rev ps ! i = ps ! Suc j" "rev ps ! Suc i = ps ! j"
    using lt jn by (simp_all add: rev_nth flip: n_def)
  have "shoelaceTerm (rev ps) i =
      px (ps ! Suc j) * py (ps ! j) - px (ps ! j) * py (ps ! Suc j)"
    using m r by (simp add: shoelaceTerm_def Let_def flip: n_def)
  moreover have "shoelaceTerm ps j =
      px (ps ! j) * py (ps ! Suc j) - px (ps ! Suc j) * py (ps ! j)"
    using m by (simp add: shoelaceTerm_def Let_def flip: n_def)
  moreover have "revIdx (length ps) i = j"
    using False by (simp add: revIdx_def j_def n_def)
  ultimately show ?thesis by simp
qed

lemma polygonArea_rev: "polygonArea (rev ps) = - polygonArea ps"
proof -
  have "(\<Sum>i<length ps. shoelaceTerm (rev ps) i) =
        (\<Sum>i<length ps. - shoelaceTerm ps (revIdx (length ps) i))"
    by (rule sum.cong) (simp_all add: shoelace_rev)
  also have "\<dots> = (\<Sum>i<length ps. - shoelaceTerm ps i)"
    by (rule sum.reindex_bij_witness [where i = "revIdx (length ps)" and j = "revIdx (length ps)"])
       (simp_all add: revIdx_lt revIdx_invol)
  finally show ?thesis by (simp add: area_sum sum_negf)
qed



text \<open>
  In exact arithmetic, for every vertex sequence, the signed shoelace area of
  \<open>ensureCCW\<close> of the sequence is at least zero and that of \<open>ensureCW\<close> is at
  most zero; each returns the sequence itself when its area already has the
  required sign and the reversed sequence otherwise.
\<close>

lemma ensure_orientation_exact:
  "0 \<le> polygonArea (ensureCCW ps) \<and> polygonArea (ensureCW ps) \<le> 0 \<and>
   ensureCCW ps = (if 0 \<le> polygonArea ps then ps else rev ps) \<and>
   ensureCW ps = (if polygonArea ps \<le> 0 then ps else rev ps)"
  by (simp add: ensureCCW_def ensureCW_def polygonArea_rev not_le not_less)

section \<open>Geometry kernel: nearest point and ray-segment intersection\<close>

text \<open>
  Claim C10.  For all points \<open>p\<close>, \<open>a\<close>, \<open>b\<close>, the degenerate case \<open>a = b\<close>
  included, the denominator \<open>len2 (b - a) + 1e-12\<close> of \<open>nearestPointOnSegment\<close>
  is strictly positive, the returned parameter \<open>t\<close> lies in \<open>[0, 1]\<close>, and the
  returned point is \<open>a + t (b - a)\<close>.  (The model function is total, so a result
  exists for every input.)
\<close>

theorem nearestPointOnSegment_total:
  "0 < len2 (sub b a) + 1 / 10 ^ 12 \<and>
   0 \<le> snd (nearestPointOnSegment p a b) \<and>
   snd (nearestPointOnSegment p a b) \<le> 1 \<and>
   fst (nearestPointOnSegment p a b) =
     add a (mul (sub b a) (snd (nearestPointOnSegment p a b)))"
proof -
  have "0 \<le> len2 (sub b a)" by (simp add: len2_def)
  then have "0 < len2 (sub b a) + 1 / 10 ^ 12" by (simp add: add_nonneg_pos)
  then show ?thesis by (simp add: nearestPointOnSegment_def Let_def clamp_def)
qed

theorem nearestPointOnSegment_total_witness:
  "nearestPointOnSegment (pt 3 4) (pt 1 1) (pt 1 1) = (pt 1 1, 0) \<and>
   nearestPointOnSegment (pt 1 5) (pt 0 0) (pt 2 0) = (pt (2 * (2 / (4 + 1 / 10 ^ 12))) 0, 2 / (4 + 1 / 10 ^ 12))"
  using nearestPointOnSegment_total [of "pt 1 1" "pt 1 1" "pt 3 4"]
  by (simp add: nearestPointOnSegment_def Let_def clamp_def pt_def sub_def add_def mul_def dot_def len2_def)

lemma lin2:
  fixes vx vy wx wy ax ay t u :: real
  assumes D: "vx * wy - vy * wx \<noteq> 0"
  shows "(t * vx - u * wx = ax \<and> t * vy - u * wy = ay) \<longleftrightarrow>
         (t = (ax * wy - ay * wx) / (vx * wy - vy * wx) \<and>
          u = (ax * vy - ay * vx) / (vx * wy - vy * wx))"
proof
  assume eqs: "t * vx - u * wx = ax \<and> t * vy - u * wy = ay"
  then have ax: "ax = t * vx - u * wx" and ay: "ay = t * vy - u * wy"
    by simp_all
  have "t * (vx * wy - vy * wx) = ax * wy - ay * wx"
    and "u * (vx * wy - vy * wx) = ax * vy - ay * vx"
    unfolding ax ay by (simp_all add: algebra_simps)
  with D show "t = (ax * wy - ay * wx) / (vx * wy - vy * wx) \<and>
          u = (ax * vy - ay * vx) / (vx * wy - vy * wx)"
    by (simp add: eq_divide_eq)
next
  assume sol: "t = (ax * wy - ay * wx) / (vx * wy - vy * wx) \<and>
          u = (ax * vy - ay * vx) / (vx * wy - vy * wx)"
  define D where "D = vx * wy - vy * wx"
  have D0: "D \<noteq> 0" using D by (simp add: D_def)
  have t: "t = (ax * wy - ay * wx) / D" and u: "u = (ax * vy - ay * vx) / D"
    using sol by (simp_all add: D_def)
  have "t * vx - u * wx = (ax * (vx * wy - vy * wx)) / D"
    unfolding t u by (simp add: algebra_simps diff_divide_distrib add_divide_distrib)
  also have "\<dots> = ax" using D0 by (simp add: D_def)
  finally have 1: "t * vx - u * wx = ax" .
  have "t * vy - u * wy = (ay * (vx * wy - vy * wx)) / D"
    unfolding t u by (simp add: algebra_simps diff_divide_distrib add_divide_distrib)
  also have "\<dots> = ay" using D0 by (simp add: D_def)
  finally have 2: "t * vy - u * wy = ay" .
  from 1 2 show "t * vx - u * wx = ax \<and> t * vy - u * wy = ay" by simp
qed

lemma solvesRaySystem_iff:
  assumes "cross v (sub b a) \<noteq> 0"
  shows "solvesRaySystem p v a b t u \<longleftrightarrow>
     t = cross (sub a p) (sub b a) / cross v (sub b a) \<and>
     u = cross (sub a p) v / cross v (sub b a)"
proof -
  have D: "px v * (py b - py a) - py v * (px b - px a) \<noteq> 0"
    using assms by (simp add: cross_def sub_def)
  have "solvesRaySystem p v a b t u \<longleftrightarrow>
      (t * px v - u * (px b - px a) = px a - px p \<and>
       t * py v - u * (py b - py a) = py a - py p)"
    by (auto simp add: solvesRaySystem_def add_def mul_def sub_def algebra_simps)
  also have "\<dots> \<longleftrightarrow>
     (t = ((px a - px p) * (py b - py a) - (py a - py p) * (px b - px a)) /
          (px v * (py b - py a) - py v * (px b - px a)) \<and>
      u = ((px a - px p) * py v - (py a - py p) * px v) /
          (px v * (py b - py a) - py v * (px b - px a)))"
    by (rule lin2 [OF D])
  finally show ?thesis by (simp add: cross_def sub_def)
qed

text \<open>
  Claim C7.  For every ray origin \<open>p\<close>, direction \<open>v\<close>, segment endpoints
  \<open>a\<close>, \<open>b\<close> and every epsilon that is not negative (the default is 1e-9):
  the ray-segment intersection returns no hit exactly when
  \<open>|cross v (b - a)| \<le> eps\<close>, or the ray parameter \<open>t < - eps\<close>, or the
  segment parameter \<open>u < - eps\<close> or \<open>u > 1 + eps\<close>, where
  \<open>t = cross (a - p) (b - a) / cross v (b - a)\<close> and
  \<open>u = cross (a - p) v / cross v (b - a)\<close>; whenever the cross product exceeds
  epsilon in absolute value, this pair \<open>(t, u)\<close> is the one and only solution of
  \<open>p + t v = a + u (b - a)\<close>; and a returned hit carries the point
  \<open>p + t v\<close> with \<open>t \<ge> - eps\<close> and \<open>u\<close> within \<open>[- eps, 1 + eps]\<close>, its
  \<open>t\<close> and \<open>u\<close> solving that system.
\<close>

theorem lineRaySegmentIntersection_spec:
  assumes eps: "0 \<le> eps"
  shows "(lineRaySegmentIntersection p v a b eps = None \<longleftrightarrow>
      (\<bar>cross v (sub b a)\<bar> \<le> eps
       \<or> cross (sub a p) (sub b a) / cross v (sub b a) < - eps
       \<or> cross (sub a p) v / cross v (sub b a) < - eps
       \<or> cross (sub a p) v / cross v (sub b a) > 1 + eps)) \<and>
    (\<bar>cross v (sub b a)\<bar> > eps \<longrightarrow>
      (\<forall>t u. solvesRaySystem p v a b t u \<longleftrightarrow>
         t = cross (sub a p) (sub b a) / cross v (sub b a) \<and>
         u = cross (sub a p) v / cross v (sub b a))) \<and>
    (\<forall>h. lineRaySegmentIntersection p v a b eps = Some h \<longrightarrow>
      hit_p h = add p (mul v (hit_t h)) \<and>
      - eps \<le> hit_t h \<and> - eps \<le> hit_u h \<and> hit_u h \<le> 1 + eps \<and>
      solvesRaySystem p v a b (hit_t h) (hit_u h))"
proof (intro conjI impI allI)
  show "lineRaySegmentIntersection p v a b eps = None \<longleftrightarrow>
      (\<bar>cross v (sub b a)\<bar> \<le> eps
       \<or> cross (sub a p) (sub b a) / cross v (sub b a) < - eps
       \<or> cross (sub a p) v / cross v (sub b a) < - eps
       \<or> cross (sub a p) v / cross v (sub b a) > 1 + eps)"
    by (auto simp add: lineRaySegmentIntersection_def Let_def)
next
  fix t u
  assume "\<bar>cross v (sub b a)\<bar> > eps"
  with eps have "cross v (sub b a) \<noteq> 0" by auto
  then show "solvesRaySystem p v a b t u \<longleftrightarrow>
         t = cross (sub a p) (sub b a) / cross v (sub b a) \<and>
         u = cross (sub a p) v / cross v (sub b a)"
    by (rule solvesRaySystem_iff)
next
  fix h
  assume h: "lineRaySegmentIntersection p v a b eps = Some h"
  then have big: "\<not> \<bar>cross v (sub b a)\<bar> \<le> eps"
    by (auto simp add: lineRaySegmentIntersection_def Let_def split: if_splits)
  with eps have nz: "cross v (sub b a) \<noteq> 0" by auto
  from h big have hv: "hit_t h = cross (sub a p) (sub b a) / cross v (sub b a)"
      "hit_u h = cross (sub a p) v / cross v (sub b a)"
      "hit_p h = add p (mul v (hit_t h))"
      "- eps \<le> hit_t h" "- eps \<le> hit_u h" "hit_u h \<le> 1 + eps"
    by (auto simp add: lineRaySegmentIntersection_def Let_def split: if_splits)
  show "hit_p h = add p (mul v (hit_t h))" by (rule hv)
  show "- eps \<le> hit_t h" by (rule hv)
  show "- eps \<le> hit_u h" by (rule hv)
  show "hit_u h \<le> 1 + eps" by (rule hv)
  show "solvesRaySystem p v a b (hit_t h) (hit_u h)"
    using hv(1,2) by (simp add: solvesRaySystem_iff [OF nz])
qed

theorem lineRaySegmentIntersection_spec_witness:
  "(0::real) \<le> 1 / 10 ^ 9 \<and>
   lineRaySegmentIntersection (pt 0 0) (pt 1 0) (pt 2 (-1)) (pt 2 1) (1 / 10 ^ 9) =
     Some \<lparr>hit_t = 2, hit_u = 1 / 2, hit_p = pt 2 0\<rparr> \<and>
   solvesRaySystem (pt 0 0) (pt 1 0) (pt 2 (-1)) (pt 2 1) 2 (1 / 2) \<and>
   lineRaySegmentIntersection (pt 0 0) (pt 1 0) (pt 2 1) (pt 3 1) (1 / 10 ^ 9) = None"
proof -
  have e: "(0::real) \<le> 1 / 10 ^ 9" by simp
  have h: "lineRaySegmentIntersection (pt 0 0) (pt 1 0) (pt 2 (-1)) (pt 2 1) (1 / 10 ^ 9) =
     Some \<lparr>hit_t = 2, hit_u = 1 / 2, hit_p = pt 2 0\<rparr>"
    by (simp add: lineRaySegmentIntersection_def Let_def pt_def sub_def cross_def add_def mul_def)
  have n: "lineRaySegmentIntersection (pt 0 0) (pt 1 0) (pt 2 1) (pt 3 1) (1 / 10 ^ 9) = None"
    by (simp add: lineRaySegmentIntersection_def Let_def pt_def sub_def cross_def add_def mul_def)
  from lineRaySegmentIntersection_spec [OF e, of "pt 0 0" "pt 1 0" "pt 2 (-1)" "pt 2 1"] h
  have "solvesRaySystem (pt 0 0) (pt 1 0) (pt 2 (-1)) (pt 2 1) 2 (1 / 2)"
    by simp
  with e h n show ?thesis by simp
qed

section \<open>Ring builder: helper lemmas\<close>

lemma pt_eta: "pt (px p) (py p) = p"
  by (simp add: pt_def)

lemma collapseLoop_keepAfter:
  "acc \<noteq> [] \<Longrightarrow> collapseLoop ps acc = acc @ keepAfter (last acc) ps"
  by (induction ps arbitrary: acc) (auto simp add: nearDuplicate_def not_less)

lemma collapseLoop_collapseDuplicates: "collapseLoop ps [] = collapseDuplicates ps"
  by (cases ps) (simp_all add: collapseDuplicates_def collapseLoop_keepAfter)

lemma length_keepAfter: "length (keepAfter p qs) \<le> length qs"
  by (induction qs arbitrary: p) (auto simp add: le_SucI)

lemma length_collapseDuplicates: "length (collapseDuplicates ps) \<le> length ps"
  by (cases ps) (simp_all add: collapseDuplicates_def length_keepAfter)

text \<open>
  Claim C6 (amended).  For every closed shape fed to the ring builder:
  conversion first collapses consecutive points whose coordinates are within
  1e-9 of the previously kept point in both \<open>x\<close> and \<open>y\<close>; it fails with the
  \<open>DegenerateRing\<close> error when fewer than three vertices remain after collapsing,
  and with the \<open>SelfIntersectingRing\<close> error when the cleaned ring fails the
  simplicity check; otherwise it returns the cleaned ring unchanged.  Both
  errors carry a fixed message that does not name the shape.
\<close>

theorem ringFromShape_spec:
  "ringFromShape s =
     (let clean = collapseDuplicates (shape_points s) in
      if length clean < 3 then Inl DegenerateRing
      else if \<not> isSimplePolygon clean (1 / 10 ^ 9) then Inl SelfIntersectingRing
      else Inr clean)"
proof -
  have m: "map (\<lambda>p. pt (px p) (py p)) (shape_points s) = shape_points s"
    by (simp add: pt_eta)
  have "length (shape_points s) < 3 \<Longrightarrow> length (collapseDuplicates (shape_points s)) < 3"
    using length_collapseDuplicates [of "shape_points s"] by simp
  then show ?thesis
    by (auto simp add: ringFromShape_def m Let_def collapseLoop_collapseDuplicates
        DegenerateRing_def SelfIntersectingRing_def)
qed

lemma classifyLoop_filter:
  "classifyLoop outer infos (hs, os) =
     (hs @ filter (\<lambda>i. info_id i \<noteq> info_id outer \<and>
                        pointInPolygon (info_centroid i) (info_ring outer)) infos,
      os @ filter (\<lambda>i. info_id i \<noteq> info_id outer \<and>
                        \<not> pointInPolygon (info_centroid i) (info_ring outer)) infos)"
  by (induction infos arbitrary: hs os) auto

lemma mapResult_Inr:
  "mapResult f zs = Inr vs \<Longrightarrow> list_all2 (\<lambda>z v. f z = Inr v) zs vs"
  by (induction zs arbitrary: vs) (auto split: sum.splits)

lemma mapResult_all_Inr:
  "(\<And>z. z \<in> set zs \<Longrightarrow> f z = Inr (g z)) \<Longrightarrow> mapResult f zs = Inr (map g zs)"
  by (induction zs) auto

lemma ringFromShape_Inr_length: "ringFromShape s = Inr r \<Longrightarrow> 3 \<le> length r"
  by (auto simp add: ringFromShape_def Let_def split: if_splits)

lemma ringInfoOf_Inr:
  assumes "ringInfoOf s = Inr info"
  shows "info_id info = shape_id s" "ringFromShape s = Inr (info_ring info)"
    "3 \<le> length (info_ring info)" "info_absArea info = \<bar>polygonArea (info_ring info)\<bar>"
    "info_centroid info = polygonCentroid (info_ring info)"
proof -
  from assms obtain r where r: "ringFromShape s = Inr r"
    and i: "info = \<lparr>info_id = shape_id s, info_ring = r, info_area = polygonArea r,
                  info_absArea = \<bar>polygonArea r\<bar>, info_centroid = polygonCentroid r\<rparr>"
    by (auto simp add: ringInfoOf_def Let_def split: sum.splits)
  show "info_id info = shape_id s" by (simp add: i)
  show "ringFromShape s = Inr (info_ring info)" by (simp add: i r)
  show "3 \<le> length (info_ring info)" using ringFromShape_Inr_length [OF r] by (simp add: i)
  show "info_absArea info = \<bar>polygonArea (info_ring info)\<bar>" by (simp add: i)
  show "info_centroid info = polygonCentroid (info_ring info)" by (simp add: i)
qed

lemma length_ensureCCW: "length (ensureCCW r) = length r"
  by (simp add: ensureCCW_def)

lemma length_ensureCW: "length (ensureCW r) = length r"
  by (simp add: ensureCW_def)

lemma closeRing_nonempty:
  "r \<noteq> [] \<Longrightarrow> closeRing r = Inr (map (\<lambda>p. [px p, py p]) r @ [[px (hd r), py (hd r)]])"
  by (cases r) (simp_all add: closeRing_def)

lemma closeRing_explicitClosure: "r \<noteq> [] \<Longrightarrow> closeRing r = Inr (explicitClosure r)"
  by (cases r) (simp_all add: closeRing_def explicitClosure_def)

lemma mapResult_ringInfoOf_length:
  assumes "mapResult ringInfoOf zs = Inr infos" and "i \<in> set infos"
  shows "3 \<le> length (info_ring i)"
proof -
  from assms(1) have "list_all2 (\<lambda>z v. ringInfoOf z = Inr v) zs infos"
    by (rule mapResult_Inr)
  with assms(2) obtain z where "ringInfoOf z = Inr i"
    by (auto simp add: in_set_conv_nth list_all2_conv_all_nth)
  then show ?thesis by (rule ringInfoOf_Inr)
qed

lemma foldl_largest:
  fixes f :: "'a \<Rightarrow> real"
  defines "step \<equiv> (\<lambda>a b. if f b > f a then b else a)"
  shows "foldl step a zs \<in> set (a # zs) \<and> f a \<le> f (foldl step a zs) \<and>
         (\<forall>z\<in>set zs. f z \<le> f (foldl step a zs))"
proof (induction zs arbitrary: a)
  case Nil
  show ?case by simp
next
  case (Cons z zs)
  from Cons [of "step a z"] show ?case
    by (auto simp add: step_def split: if_splits)
qed

lemma largestRing_max:
  assumes "infos \<noteq> []"
  shows "largestRing infos \<in> set infos"
    and "\<And>i. i \<in> set infos \<Longrightarrow> info_absArea i \<le> info_absArea (largestRing infos)"
  using foldl_largest [of info_absArea "hd infos" infos] assms
  by (auto simp add: largestRing_def)

lemma normalizedRings_classified:
  assumes c: "closedShapes shapes \<noteq> []"
    and ns: "\<not> selectedNotClosed sel (selectedShape shapes sel)"
    and m: "mapResult ringInfoOf (closedShapes shapes) = Inr infos"
    and out: "outer = chooseOuter (selectedShape shapes sel) infos"
    and hs: "holes = filter (\<lambda>i. info_id i \<noteq> info_id outer \<and>
                  pointInPolygon (info_centroid i) (info_ring outer)) infos"
    and os: "outsiders = filter (\<lambda>i. info_id i \<noteq> info_id outer \<and>
                  \<not> pointInPolygon (info_centroid i) (info_ring outer)) infos"
  shows "normalizedRings shapes sel =
     (if outsiders \<noteq> [] then Inl (MultipleDisjointOuterRings (length outsiders))
      else Inr (ensureCCW (info_ring outer) # map (\<lambda>h. ensureCW (info_ring h)) holes))"
  using c ns
  by (simp add: normalizedRings_def Let_def m classifyLoop_filter
      MultipleDisjointOuterRings_def flip: out hs os)

lemma chooseOuter_in_set:
  assumes "infos \<noteq> []"
  shows "chooseOuter selected infos \<in> set infos"
proof (cases "(case selected of None \<Rightarrow> None | Some sel \<Rightarrow>
             if shape_type sel = Polygon \<and> shape_closed sel
             then find (\<lambda>r. info_id r = shape_id sel) infos else None)")
  case None
  then show ?thesis using largestRing_max(1) [OF assms] by (simp add: chooseOuter_def)
next
  case (Some out)
  then have "\<exists>P. find P infos = Some out"
    by (auto split: option.splits if_splits)
  then have "out \<in> set infos"
    by (auto simp add: find_Some_iff)
  with Some show ?thesis by (simp add: chooseOuter_def)
qed

lemma mapResult_nonempty:
  "mapResult f zs = Inr vs \<Longrightarrow> zs \<noteq> [] \<Longrightarrow> vs \<noteq> []"
  by (cases zs) (auto split: sum.splits)

lemma buildRings_classified:
  assumes c: "closedShapes shapes \<noteq> []"
    and ns: "\<not> selectedNotClosed sel (selectedShape shapes sel)"
    and m: "mapResult ringInfoOf (closedShapes shapes) = Inr infos"
    and out: "outer = chooseOuter (selectedShape shapes sel) infos"
    and hs: "holes = filter (\<lambda>i. info_id i \<noteq> info_id outer \<and>
                  pointInPolygon (info_centroid i) (info_ring outer)) infos"
    and os: "outsiders = filter (\<lambda>i. info_id i \<noteq> info_id outer \<and>
                  \<not> pointInPolygon (info_centroid i) (info_ring outer)) infos"
  shows "buildRingsFromProject shapes sel =
     (if outsiders \<noteq> [] then Inl (MultipleDisjointOuterRings (length outsiders))
      else Inr \<lparr>rings = map explicitClosure
                   (ensureCCW (info_ring outer) # map (\<lambda>h. ensureCW (info_ring h)) holes),
                outerRing = ensureCCW (info_ring outer)\<rparr>)"
proof (cases "outsiders \<noteq> []")
  case True
  with normalizedRings_classified [OF c ns m out hs os] show ?thesis
    by (simp add: buildRingsFromProject_def)
next
  case False
  let ?nr = "ensureCCW (info_ring outer) # map (\<lambda>h. ensureCW (info_ring h)) holes"
  from False normalizedRings_classified [OF c ns m out hs os]
  have n: "normalizedRings shapes sel = Inr ?nr" by simp
  have ne: "infos \<noteq> []" using mapResult_nonempty [OF m c] .
  have "outer \<in> set infos" unfolding out by (rule chooseOuter_in_set [OF ne])
  then have o3: "3 \<le> length (info_ring outer)" by (rule mapResult_ringInfoOf_length [OF m])
  have h3: "\<And>h. h \<in> set holes \<Longrightarrow> 3 \<le> length (info_ring h)"
    using mapResult_ringInfoOf_length [OF m] by (simp add: hs)
  have "\<And>r. r \<in> set ?nr \<Longrightarrow> closeRing r = Inr (explicitClosure r)"
  proof -
    fix r assume "r \<in> set ?nr"
    then have "3 \<le> length r" using o3 h3
      by (auto simp add: length_ensureCCW length_ensureCW)
    then have "r \<noteq> []" by auto
    then show "closeRing r = Inr (explicitClosure r)" by (rule closeRing_explicitClosure)
  qed
  then have "mapResult closeRing ?nr = Inr (map explicitClosure ?nr)"
    by (rule mapResult_all_Inr)
  with n False show ?thesis by (simp add: buildRingsFromProject_def)
qed

lemma find_filter_Some: "find P zs = Some s \<Longrightarrow> Q s \<Longrightarrow> find P (filter Q zs) = Some s"
  by (induction zs) (auto split: if_splits)

lemma find_list_all2:
  assumes "list_all2 (\<lambda>z v. f z = Inr v) zs vs"
    and "\<And>z v. f z = Inr v \<Longrightarrow> P' v = P z"
    and "find P zs = Some s"
  shows "\<exists>v. find P' vs = Some v \<and> f s = Inr v"
  using assms
proof (induction zs vs rule: list_all2_induct)
  case Nil
  then show ?case by simp
next
  case (Cons z zs v vs)
  show ?case
  proof (cases "P z")
    case True
    with Cons.prems(2) have "s = z" by simp
    with True Cons.hyps(1) Cons.prems(1) [OF Cons.hyps(1)] show ?thesis by simp
  next
    case False
    with Cons.prems(2) have "find P zs = Some s" by simp
    from Cons.IH [OF Cons.prems(1) this] obtain w where "find P' vs = Some w" "f s = Inr w"
      by blast
    with False Cons.prems(1) [OF Cons.hyps(1)] show ?thesis by simp
  qed
qed

lemma chooseOuter_selected:
  assumes m: "mapResult ringInfoOf (closedShapes shapes) = Inr infos"
    and g: "getShapeById shapes i = Some s"
    and cl: "shape_type s = Polygon \<and> shape_closed s"
    and i: "i \<noteq> []"
  shows "ringInfoOf s = Inr (chooseOuter (selectedShape shapes (Some i)) infos)"
proof -
  from g have f: "find (\<lambda>z. shape_id z = i) shapes = Some s" and sid: "shape_id s = i"
    by (auto simp add: getShapeById_def find_Some_iff)
  from f cl have "find (\<lambda>z. shape_id z = i) (closedShapes shapes) = Some s"
    unfolding closedShapes_def by (intro find_filter_Some) simp_all
  moreover have "list_all2 (\<lambda>z v. ringInfoOf z = Inr v) (closedShapes shapes) infos"
    using m by (rule mapResult_Inr)
  moreover have "\<And>z v. ringInfoOf z = Inr v \<Longrightarrow> (info_id v = i) = (shape_id z = i)"
    by (simp add: ringInfoOf_Inr(1))
  ultimately obtain v where v: "find (\<lambda>r. info_id r = i) infos = Some v" "ringInfoOf s = Inr v"
    using find_list_all2 [where f = ringInfoOf and P = "\<lambda>z. shape_id z = i"
        and P' = "\<lambda>r. info_id r = i"] by blast
  have "chooseOuter (selectedShape shapes (Some i)) infos = v"
    using g cl i v(1) by (simp add: chooseOuter_def selectedShape_def sid)
  with v(2) show ?thesis by simp
qed

lemma buildRings_selected_not_closed:
  assumes c: "closedShapes shapes \<noteq> []"
    and g: "getShapeById shapes i = Some s"
    and cl: "\<not> (shape_type s = Polygon \<and> shape_closed s)"
    and i: "i \<noteq> []"
  shows "buildRingsFromProject shapes (Some i) = Inl (Error msgSelectedNotClosed)"
  using assms
  by (auto simp add: buildRingsFromProject_def normalizedRings_def Let_def selectedShape_def
      selectedNotClosed_def truthyId_def)

lemma chooseOuter_unselected:
  assumes "sel = None \<or> sel = Some [] \<or> (\<exists>i. sel = Some i \<and> getShapeById shapes i = None)"
  shows "chooseOuter (selectedShape shapes sel) infos = largestRing infos"
  using assms by (auto simp add: chooseOuter_def selectedShape_def)

lemma buildRings_Inr_reaches:
  assumes "buildRingsFromProject shapes sel = Inr res"
  shows "closedShapes shapes \<noteq> [] \<and> \<not> selectedNotClosed sel (selectedShape shapes sel) \<and>
         (\<exists>infos. mapResult ringInfoOf (closedShapes shapes) = Inr infos)"
proof -
  from assms obtain nr where "normalizedRings shapes sel = Inr nr"
    by (auto simp add: buildRingsFromProject_def split: sum.splits)
  then show ?thesis
    by (auto simp add: normalizedRings_def Let_def split: if_splits sum.splits)
qed

lemma buildRings_Inr_outer:
  assumes r: "buildRingsFromProject shapes sel = Inr res"
    and m: "mapResult ringInfoOf (closedShapes shapes) = Inr infos"
  shows "rings res = map explicitClosure
           (ensureCCW (info_ring (chooseOuter (selectedShape shapes sel) infos)) #
            map (\<lambda>h. ensureCW (info_ring h))
              (filter (\<lambda>i. info_id i \<noteq> info_id (chooseOuter (selectedShape shapes sel) infos) \<and>
                  pointInPolygon (info_centroid i)
                    (info_ring (chooseOuter (selectedShape shapes sel) infos))) infos))"
    and "outerRing res = ensureCCW (info_ring (chooseOuter (selectedShape shapes sel) infos))"
    and "normalizedRings shapes sel = Inr
           (ensureCCW (info_ring (chooseOuter (selectedShape shapes sel) infos)) #
            map (\<lambda>h. ensureCW (info_ring h))
              (filter (\<lambda>i. info_id i \<noteq> info_id (chooseOuter (selectedShape shapes sel) infos) \<and>
                  pointInPolygon (info_centroid i)
                    (info_ring (chooseOuter (selectedShape shapes sel) infos))) infos))"
proof -
  from buildRings_Inr_reaches [OF r]
  have c: "closedShapes shapes \<noteq> []"
    and ns: "\<not> selectedNotClosed sel (selectedShape shapes sel)" by simp_all
  note b = buildRings_classified [OF c ns m refl refl refl]
  note n = normalizedRings_classified [OF c ns m refl refl refl]
  from b r show "rings res = map explicitClosure
           (ensureCCW (info_ring (chooseOuter (selectedShape shapes sel) infos)) #
            map (\<lambda>h. ensureCW (info_ring h))
              (filter (\<lambda>i. info_id i \<noteq> info_id (chooseOuter (selectedShape shapes sel) infos) \<and>
                  pointInPolygon (info_centroid i)
                    (info_ring (chooseOuter (selectedShape shapes sel) infos))) infos))"
    by (auto split: if_splits)
  from b r show "outerRing res = ensureCCW (info_ring (chooseOuter (selectedShape shapes sel) infos))"
    by (auto split: if_splits)
  from b r have "filter (\<lambda>i. info_id i \<noteq> info_id (chooseOuter (selectedShape shapes sel) infos) \<and>
                  \<not> pointInPolygon (info_centroid i)
                    (info_ring (chooseOuter (selectedShape shapes sel) infos))) infos = []"
    by (auto split: if_splits)
  with n show "normalizedRings shapes sel = Inr
           (ensureCCW (info_ring (chooseOuter (selectedShape shapes sel) infos)) #
            map (\<lambda>h. ensureCW (info_ring h))
              (filter (\<lambda>i. info_id i \<noteq> info_id (chooseOuter (selectedShape shapes sel) infos) \<and>
                  pointInPolygon (info_centroid i)
                    (info_ring (chooseOuter (selectedShape shapes sel) infos))) infos))"
    by simp
qed

lemmas geom_defs = pt_def add_def sub_def mul_def dot_def cross_def orient_def onSegment_def
  segmentsIntersect_def edgePairOk_def isSimplePolygon_def polygonArea_def shoelaceTerm_def
  polygonCentroid_def bboxOfPoints_def accMin_def accMax_def edgeCrossesRay_def pointInPolygon_def

lemma ringInfoOf_squareA: "ringInfoOf squareA = Inr infoA"
  by (simp add: ringInfoOf_def ringFromShape_def squareA_def infoA_def Let_def geom_defs)

lemma ringInfoOf_squareB: "ringInfoOf squareB = Inr infoB"
  by (simp add: ringInfoOf_def ringFromShape_def squareB_def infoB_def Let_def geom_defs)

lemma ringInfoOf_triangleC: "ringInfoOf triangleC = Inr infoC"
  by (simp add: ringInfoOf_def ringFromShape_def triangleC_def infoC_def Let_def geom_defs)

lemma pip_B_in_A: "\<not> pointInPolygon (info_centroid infoB) (info_ring infoA)"
  by (simp add: infoA_def infoB_def Let_def geom_defs)

lemma pip_C_in_A: "pointInPolygon (info_centroid infoC) (info_ring infoA)"
  by (simp add: infoA_def infoC_def Let_def geom_defs)

lemma ids_distinct: "info_id infoB \<noteq> info_id infoA" "info_id infoC \<noteq> info_id infoA"
  by (simp_all add: infoA_def infoB_def infoC_def)

lemma closed_AB: "closedShapes [squareA, squareB] = [squareA, squareB]"
  by (simp add: closedShapes_def squareA_def squareB_def)

lemma largest_AB: "largestRing [infoA, infoB] = infoA"
  by (simp add: largestRing_def infoA_def infoB_def)

section \<open>Ring builder: classification, selection and output\<close>

lemma digitValue_digit:
  assumes "d < 10"
  shows "digitValue (''0123456789'' ! d) = d"
proof -
  from assms have "d = 0 \<or> d = 1 \<or> d = 2 \<or> d = 3 \<or> d = 4 \<or> d = 5 \<or> d = 6 \<or> d = 7 \<or>
      d = 8 \<or> d = 9" by arith
  then show ?thesis by (auto simp add: digitValue_def)
qed

lemma strNat_snoc: "strNat (s @ [c]) = 10 * strNat s + digitValue c"
  by (simp add: strNat_def)

lemma strNat_natStr: "strNat (natStr n) = n"
proof (induction n rule: natStr.induct)
  case (1 n)
  show ?case
  proof (cases "n < 10")
    case True
    then show ?thesis
      by (subst natStr.simps) (simp add: strNat_def digitValue_digit)
  next
    case False
    have d: "n mod 10 < 10" by simp
    from False 1 have IH: "strNat (natStr (n div 10)) = n div 10" by simp
    from False show ?thesis
      by (subst natStr.simps) (simp add: strNat_snoc IH digitValue_digit [OF d])
  qed
qed

lemma natStr_inj: "natStr m = natStr n \<Longrightarrow> m = n"
  by (metis strNat_natStr)

lemma msgMultipleOuter_text:
  "msgMultipleOuter k =
     ''Multiple outer candidates (disjoint closed polygons) were detected.'' @ [CHR 0x0A] @
     ''This demo supports only: '' @ [CHR 0x22] @
     ''one outer boundary + holes (inner closed polygons)'' @ [CHR 0x22] @ ''.'' @ [CHR 0x0A] @
     ''Number of polygons outside the outer boundary: '' @ natStr k"
  by (simp add: msgMultipleOuter_def)

text \<open>
  Claim C2.  For every scene whose ring building reaches classification (there
  is a closed shape, the selection is not rejected and every closed shape
  converts to a ring): with \<open>outer\<close> the chosen outer ring, the rings other than
  the outer (by identifier) whose centroid lies inside the outer ring are
  exactly the hole rings of the output, in scene order and made clockwise; and
  if any other ring's centroid lies outside the outer ring, the ring builder
  fails with the \<open>MultipleDisjointOuterRings\<close> error, whose message ends with the
  number of such outside rings in decimal (it reads back as that number, and
  the error of one count is not the error of another), and its result then
  carries no rings at all.  For two disjoint closed squares the reported count
  is 1 (shown by the witness, which also has a scene with a hole).
\<close>

theorem classification:
  assumes "closedShapes shapes \<noteq> []"
    and "\<not> selectedNotClosed sel (selectedShape shapes sel)"
    and "mapResult ringInfoOf (closedShapes shapes) = Inr infos"
    and "outer = chooseOuter (selectedShape shapes sel) infos"
    and "holes = filter (\<lambda>i. info_id i \<noteq> info_id outer \<and>
                  pointInPolygon (info_centroid i) (info_ring outer)) infos"
    and "outsiders = filter (\<lambda>i. info_id i \<noteq> info_id outer \<and>
                  \<not> pointInPolygon (info_centroid i) (info_ring outer)) infos"
  shows "buildRingsFromProject shapes sel =
     (if outsiders \<noteq> []
      then Inl (Error
        (''Multiple outer candidates (disjoint closed polygons) were detected.'' @ [CHR 0x0A] @
         ''This demo supports only: '' @ [CHR 0x22] @
         ''one outer boundary + holes (inner closed polygons)'' @ [CHR 0x22] @ ''.'' @
         [CHR 0x0A] @
         ''Number of polygons outside the outer boundary: '' @ natStr (length outsiders)))
      else Inr \<lparr>rings = map explicitClosure
                   (ensureCCW (info_ring outer) # map (\<lambda>h. ensureCW (info_ring h)) holes),
                outerRing = ensureCCW (info_ring outer)\<rparr>) \<and>
     strNat (natStr (length outsiders)) = length outsiders \<and>
     (\<forall>k. buildRingsFromProject shapes sel = Inl (MultipleDisjointOuterRings k) \<longleftrightarrow>
          outsiders \<noteq> [] \<and> k = length outsiders)"
proof -
  note b = buildRings_classified [OF assms]
  have inj: "MultipleDisjointOuterRings k = MultipleDisjointOuterRings k' \<longleftrightarrow> k = k'" for k k'
    by (auto simp add: MultipleDisjointOuterRings_def msgMultipleOuter_text dest: natStr_inj)
  have 1: "buildRingsFromProject shapes sel =
     (if outsiders \<noteq> []
      then Inl (Error
        (''Multiple outer candidates (disjoint closed polygons) were detected.'' @ [CHR 0x0A] @
         ''This demo supports only: '' @ [CHR 0x22] @
         ''one outer boundary + holes (inner closed polygons)'' @ [CHR 0x22] @ ''.'' @
         [CHR 0x0A] @
         ''Number of polygons outside the outer boundary: '' @ natStr (length outsiders)))
      else Inr \<lparr>rings = map explicitClosure
                   (ensureCCW (info_ring outer) # map (\<lambda>h. ensureCW (info_ring h)) holes),
                outerRing = ensureCCW (info_ring outer)\<rparr>)"
    unfolding b by (simp add: MultipleDisjointOuterRings_def msgMultipleOuter_text)
  have 3: "\<forall>k. buildRingsFromProject shapes sel = Inl (MultipleDisjointOuterRings k) \<longleftrightarrow>
          outsiders \<noteq> [] \<and> k = length outsiders"
    unfolding b using inj by auto
  from 1 strNat_natStr 3 show ?thesis by (intro conjI)
qed

lemma closed_AC: "closedShapes [squareA, triangleC] = [squareA, triangleC]"
  by (simp add: closedShapes_def squareA_def triangleC_def)

theorem classification_witness:
  "closedShapes [squareA, squareB] \<noteq> [] \<and>
   \<not> selectedNotClosed None (selectedShape [squareA, squareB] None) \<and>
   mapResult ringInfoOf (closedShapes [squareA, squareB]) = Inr [infoA, infoB] \<and>
   infoA = chooseOuter (selectedShape [squareA, squareB] None) [infoA, infoB] \<and>
   [] = filter (\<lambda>i. info_id i \<noteq> info_id infoA \<and>
                  pointInPolygon (info_centroid i) (info_ring infoA)) [infoA, infoB] \<and>
   [infoB] = filter (\<lambda>i. info_id i \<noteq> info_id infoA \<and>
                  \<not> pointInPolygon (info_centroid i) (info_ring infoA)) [infoA, infoB] \<and>
   buildRingsFromProject [squareA, squareB] None =
     Inl (Error
       (''Multiple outer candidates (disjoint closed polygons) were detected.'' @ [CHR 0x0A] @
        ''This demo supports only: '' @ [CHR 0x22] @
        ''one outer boundary + holes (inner closed polygons)'' @ [CHR 0x22] @ ''.'' @
        [CHR 0x0A] @
        ''Number of polygons outside the outer boundary: 1'')) \<and>
   buildRingsFromProject [squareA, squareB] None = Inl (MultipleDisjointOuterRings 1) \<and>
   strNat ''1'' = 1 \<and>
   mapResult ringInfoOf (closedShapes [squareA, triangleC]) = Inr [infoA, infoC] \<and>
   [infoC] = filter (\<lambda>i. info_id i \<noteq> info_id infoA \<and>
                  pointInPolygon (info_centroid i) (info_ring infoA)) [infoA, infoC] \<and>
   [] = filter (\<lambda>i. info_id i \<noteq> info_id infoA \<and>
                  \<not> pointInPolygon (info_centroid i) (info_ring infoA)) [infoA, infoC] \<and>
   buildRingsFromProject [squareA, triangleC] None =
     Inr \<lparr>rings = [[[0, 0], [10, 0], [10, 10], [0, 10], [0, 0]],
                   [[3, 4], [4, 2], [2, 2], [3, 4]]],
          outerRing = [pt 0 0, pt 10 0, pt 10 10, pt 0 10]\<rparr>"
proof -
  have 1: "closedShapes [squareA, squareB] \<noteq> []" by (simp add: closed_AB)
  have 2: "\<not> selectedNotClosed None (selectedShape [squareA, squareB] None)"
    by (simp add: selectedNotClosed_def truthyId_def)
  have 3: "mapResult ringInfoOf (closedShapes [squareA, squareB]) = Inr [infoA, infoB]"
    by (simp add: closed_AB ringInfoOf_squareA ringInfoOf_squareB)
  have 4: "infoA = chooseOuter (selectedShape [squareA, squareB] None) [infoA, infoB]"
    by (simp add: chooseOuter_def selectedShape_def largest_AB)
  have 5: "[] = filter (\<lambda>i. info_id i \<noteq> info_id infoA \<and>
                  pointInPolygon (info_centroid i) (info_ring infoA)) [infoA, infoB]"
    by (simp add: pip_B_in_A)
  have 6: "[infoB] = filter (\<lambda>i. info_id i \<noteq> info_id infoA \<and>
                  \<not> pointInPolygon (info_centroid i) (info_ring infoA)) [infoA, infoB]"
    by (simp add: pip_B_in_A ids_distinct)
  have n1: "natStr (Suc 0) = ''1''" by (subst natStr.simps) simp
  note c = classification [OF 1 2 3 4 5 6]
  from c have 7: "buildRingsFromProject [squareA, squareB] None =
     Inl (Error
       (''Multiple outer candidates (disjoint closed polygons) were detected.'' @ [CHR 0x0A] @
        ''This demo supports only: '' @ [CHR 0x22] @
        ''one outer boundary + holes (inner closed polygons)'' @ [CHR 0x22] @ ''.'' @
        [CHR 0x0A] @
        ''Number of polygons outside the outer boundary: 1''))"
    by (simp add: n1)
  from c have 8: "buildRingsFromProject [squareA, squareB] None =
      Inl (MultipleDisjointOuterRings 1)"
    by (simp add: MultipleDisjointOuterRings_def msgMultipleOuter_text n1)
  from c have 9: "strNat ''1'' = 1" by (simp add: n1)
  have h1: "closedShapes [squareA, triangleC] \<noteq> []" by (simp add: closed_AC)
  have h2: "\<not> selectedNotClosed None (selectedShape [squareA, triangleC] None)"
    by (simp add: selectedNotClosed_def truthyId_def)
  have h3: "mapResult ringInfoOf (closedShapes [squareA, triangleC]) = Inr [infoA, infoC]"
    by (simp add: closed_AC ringInfoOf_squareA ringInfoOf_triangleC)
  have h4: "infoA = chooseOuter (selectedShape [squareA, triangleC] None) [infoA, infoC]"
    by (simp add: chooseOuter_def selectedShape_def largestRing_def infoA_def infoC_def)
  have h5: "[infoC] = filter (\<lambda>i. info_id i \<noteq> info_id infoA \<and>
                  pointInPolygon (info_centroid i) (info_ring infoA)) [infoA, infoC]"
    by (simp add: pip_C_in_A ids_distinct)
  have h6: "[] = filter (\<lambda>i. info_id i \<noteq> info_id infoA \<and>
                  \<not> pointInPolygon (info_centroid i) (info_ring infoA)) [infoA, infoC]"
    by (simp add: pip_C_in_A)
  have aA: "polygonArea (info_ring infoA) = 100" by (simp add: infoA_def geom_defs)
  have aC: "polygonArea (info_ring infoC) = 2" by (simp add: infoC_def geom_defs)
  from classification [OF h1 h2 h3 h4 h5 h6] aA aC
  have 10: "buildRingsFromProject [squareA, triangleC] None =
     Inr \<lparr>rings = [[[0, 0], [10, 0], [10, 10], [0, 10], [0, 0]],
                   [[3, 4], [4, 2], [2, 2], [3, 4]]],
          outerRing = [pt 0 0, pt 10 0, pt 10 10, pt 0 10]\<rparr>"
    by (simp add: ensureCCW_def ensureCW_def explicitClosure_def)
       (simp add: infoA_def infoC_def pt_def)
  from 1 2 3 4 5 6 7 8 9 h3 h5 h6 10 show ?thesis by (intro conjI)
qed

lemma closed_AL: "closedShapes [squareA, openLine] = [squareA]"
  by (simp add: closedShapes_def squareA_def openLine_def)

text \<open>
  Claim C3 (amended).  For every scene with at least one closed shape: if the
  preferred identifier names a shape that is not closed, the ring builder fails
  with the "selected shape is not closed" error.  When every closed shape
  converts to a ring: if a preferred identifier is given and the shape it names
  is closed, that shape's ring info is the chosen outer; if no identifier is
  given (or it is empty, or it names no shape), the chosen outer is a ring of
  maximum absolute signed area among all candidate rings; and on success the
  returned outer ring is the chosen ring made counter-clockwise, which also
  heads the output ring list in explicit-closure form.
\<close>

theorem outer_ring_selection:
  assumes c: "closedShapes shapes \<noteq> []"
  shows "(\<forall>i s. i \<noteq> [] \<and> getShapeById shapes i = Some s \<and>
            \<not> (shape_type s = Polygon \<and> shape_closed s) \<longrightarrow>
            buildRingsFromProject shapes (Some i) = Inl (Error msgSelectedNotClosed)) \<and>
         (\<forall>infos. mapResult ringInfoOf (closedShapes shapes) = Inr infos \<longrightarrow>
            (\<forall>i s. i \<noteq> [] \<and> getShapeById shapes i = Some s \<and>
                shape_type s = Polygon \<and> shape_closed s \<longrightarrow>
                ringInfoOf s = Inr (chooseOuter (selectedShape shapes (Some i)) infos)) \<and>
            (\<forall>sel. sel = None \<or> sel = Some [] \<or>
                (\<exists>i. sel = Some i \<and> getShapeById shapes i = None) \<longrightarrow>
                chooseOuter (selectedShape shapes sel) infos \<in> set infos \<and>
                (\<forall>r\<in>set infos. info_absArea r \<le>
                    info_absArea (chooseOuter (selectedShape shapes sel) infos))) \<and>
            (\<forall>sel res. buildRingsFromProject shapes sel = Inr res \<longrightarrow>
                outerRing res =
                  ensureCCW (info_ring (chooseOuter (selectedShape shapes sel) infos)) \<and>
                hd (rings res) = explicitClosure (outerRing res)))"
proof (intro conjI allI impI)
  fix i s
  assume "i \<noteq> [] \<and> getShapeById shapes i = Some s \<and>
            \<not> (shape_type s = Polygon \<and> shape_closed s)"
  then show "buildRingsFromProject shapes (Some i) = Inl (Error msgSelectedNotClosed)"
    using buildRings_selected_not_closed [OF c] by blast
next
  fix infos i s
  assume "mapResult ringInfoOf (closedShapes shapes) = Inr infos"
    and "i \<noteq> [] \<and> getShapeById shapes i = Some s \<and> shape_type s = Polygon \<and> shape_closed s"
  then show "ringInfoOf s = Inr (chooseOuter (selectedShape shapes (Some i)) infos)"
    using chooseOuter_selected by blast
next
  fix infos sel
  assume m: "mapResult ringInfoOf (closedShapes shapes) = Inr infos"
    and u: "sel = None \<or> sel = Some [] \<or> (\<exists>i. sel = Some i \<and> getShapeById shapes i = None)"
  have ne: "infos \<noteq> []" using mapResult_nonempty [OF m c] .
  show "chooseOuter (selectedShape shapes sel) infos \<in> set infos"
    by (rule chooseOuter_in_set [OF ne])
  show "\<forall>r\<in>set infos. info_absArea r \<le>
      info_absArea (chooseOuter (selectedShape shapes sel) infos)"
    using largestRing_max(2) [OF ne] by (simp add: chooseOuter_unselected [OF u])
next
  fix infos sel res
  assume m: "mapResult ringInfoOf (closedShapes shapes) = Inr infos"
    and r: "buildRingsFromProject shapes sel = Inr res"
  show "outerRing res = ensureCCW (info_ring (chooseOuter (selectedShape shapes sel) infos))"
    by (rule buildRings_Inr_outer(2) [OF r m])
  then show "hd (rings res) = explicitClosure (outerRing res)"
    by (simp add: buildRings_Inr_outer(1) [OF r m])
qed

lemma getShapeById_C: "getShapeById [squareA, triangleC] ''shape_c'' = Some triangleC"
  by (simp add: getShapeById_def squareA_def triangleC_def)

theorem outer_ring_selection_witness:
  "closedShapes [squareA, triangleC] \<noteq> [] \<and>
   mapResult ringInfoOf (closedShapes [squareA, triangleC]) = Inr [infoA, infoC] \<and>
   getShapeById [squareA, triangleC] ''shape_c'' = Some triangleC \<and>
   shape_type triangleC = Polygon \<and> shape_closed triangleC \<and>
   chooseOuter (selectedShape [squareA, triangleC] (Some ''shape_c'')) [infoA, infoC] = infoC \<and>
   chooseOuter (selectedShape [squareA, triangleC] None) [infoA, infoC] = infoA"
proof -
  have c: "closedShapes [squareA, triangleC] \<noteq> []" by (simp add: closed_AC)
  have m: "mapResult ringInfoOf (closedShapes [squareA, triangleC]) = Inr [infoA, infoC]"
    by (simp add: closed_AC ringInfoOf_squareA ringInfoOf_triangleC)
  have t: "shape_type triangleC = Polygon" "shape_closed triangleC"
    by (simp_all add: triangleC_def)
  have n: "''shape_c'' \<noteq> []" by simp
  from outer_ring_selection [OF c, THEN conjunct2, rule_format, OF m, THEN conjunct1,
      rule_format, of "''shape_c''" triangleC] n getShapeById_C t
  have "ringInfoOf triangleC =
      Inr (chooseOuter (selectedShape [squareA, triangleC] (Some ''shape_c'')) [infoA, infoC])"
    by simp
  then have 1: "chooseOuter (selectedShape [squareA, triangleC] (Some ''shape_c'')) [infoA, infoC] = infoC"
    by (simp add: ringInfoOf_triangleC)
  have 2: "chooseOuter (selectedShape [squareA, triangleC] None) [infoA, infoC] = infoA"
    by (simp add: chooseOuter_def selectedShape_def largestRing_def infoA_def infoC_def)
  from c m getShapeById_C t 1 2 show ?thesis by (intro conjI)
qed

text \<open>
  A preferred identifier that names an open shape does not fall back to the
  largest ring: the run fails, although the same scene without a selection
  succeeds with the square as outer ring.
\<close>

theorem selected_open_shape_counterexample:
  "closedShapes [squareA, openLine] \<noteq> [] \<and>
   getShapeById [squareA, openLine] ''shape_l'' = Some openLine \<and>
   shape_closed openLine = False \<and>
   buildRingsFromProject [squareA, openLine] (Some ''shape_l'') =
     Inl (Error ''The selected shape is not closed. Please select a closed polygon.'') \<and>
   buildRingsFromProject [squareA, openLine] None =
     Inr \<lparr>rings = [[[0, 0], [10, 0], [10, 10], [0, 10], [0, 0]]],
          outerRing = [pt 0 0, pt 10 0, pt 10 10, pt 0 10]\<rparr>"
proof -
  have 1: "closedShapes [squareA, openLine] \<noteq> []" by (simp add: closed_AL)
  have 2: "getShapeById [squareA, openLine] ''shape_l'' = Some openLine"
    by (simp add: getShapeById_def squareA_def openLine_def)
  have 3: "shape_closed openLine = False" by (simp add: openLine_def)
  have 4: "buildRingsFromProject [squareA, openLine] (Some ''shape_l'') =
     Inl (Error ''The selected shape is not closed. Please select a closed polygon.'')"
    using buildRings_selected_not_closed [OF 1 2] 3 by (simp add: msgSelectedNotClosed_def)
  have a: "polygonArea (info_ring infoA) = 100"
    by (simp add: infoA_def geom_defs)
  have 5: "buildRingsFromProject [squareA, openLine] None =
     Inr \<lparr>rings = [[[0, 0], [10, 0], [10, 10], [0, 10], [0, 0]]],
          outerRing = [pt 0 0, pt 10 0, pt 10 10, pt 0 10]\<rparr>"
    using a
    by (simp add: buildRingsFromProject_def normalizedRings_def closed_AL Let_def
        selectedShape_def selectedNotClosed_def truthyId_def ringInfoOf_squareA
        chooseOuter_def largestRing_def ensureCCW_def closeRing_def)
       (simp add: infoA_def pt_def)
  from 1 2 3 4 5 show ?thesis by (intro conjI)
qed

theorem ringFromShape_spec_witness:
  "ringFromShape squareA = Inr [pt 0 0, pt 10 0, pt 10 10, pt 0 10] \<and>
   collapseDuplicates (shape_points sliverD) = [pt 0 0, pt 1 0] \<and>
   ringFromShape sliverD = Inl DegenerateRing \<and>
   ringFromShape bowtieF = Inl SelfIntersectingRing"
proof -
  have 1: "collapseDuplicates (shape_points squareA) = [pt 0 0, pt 10 0, pt 10 10, pt 0 10]"
    by (simp add: squareA_def collapseDuplicates_def nearDuplicate_def pt_def)
  have 2: "isSimplePolygon [pt 0 0, pt 10 0, pt 10 10, pt 0 10] (1 / 10 ^ 9)"
    by (simp add: Let_def geom_defs)
  have 3: "collapseDuplicates (shape_points sliverD) = [pt 0 0, pt 1 0]"
    by (simp add: sliverD_def collapseDuplicates_def nearDuplicate_def pt_def)
  have 4: "collapseDuplicates (shape_points bowtieF) = [pt 0 0, pt 2 2, pt 2 0, pt 0 2]"
    by (simp add: bowtieF_def collapseDuplicates_def nearDuplicate_def pt_def)
  have 5: "\<not> isSimplePolygon [pt 0 0, pt 2 2, pt 2 0, pt 0 2] (1 / 10 ^ 9)"
    by (simp add: Let_def geom_defs)
  have a: "ringFromShape squareA = Inr [pt 0 0, pt 10 0, pt 10 10, pt 0 10]"
    using ringFromShape_spec [of squareA] 1 2 by simp
  have d: "ringFromShape sliverD = Inl DegenerateRing"
    using ringFromShape_spec [of sliverD] 3 by simp
  have f: "ringFromShape bowtieF = Inl SelfIntersectingRing"
    using ringFromShape_spec [of bowtieF] 4 5 by simp
  from a 3 d f show ?thesis by (intro conjI)
qed

lemma px_pt [simp]: "px (pt a b) = a" by (simp add: pt_def)
lemma py_pt [simp]: "py (pt a b) = b" by (simp add: pt_def)

text \<open>
  The errors of \<open>ringFromShape\<close> do not name the offending shape: two shapes
  with different identifiers yield the very same error value, whose message is
  the fixed text of the source.
\<close>

theorem ring_errors_do_not_name_shape:
  "shape_id sliverD \<noteq> shape_id sliverE \<and>
   ringFromShape sliverD = Inl (Error ''A closed shape needs at least 3 points.'') \<and>
   ringFromShape sliverE = Inl (Error ''A closed shape needs at least 3 points.'') \<and>
   shape_id bowtieF \<noteq> shape_id bowtieG \<and>
   ringFromShape bowtieF =
     Inl (Error ''This shape is self-intersecting. Please use a simple polygon.'') \<and>
   ringFromShape bowtieG =
     Inl (Error ''This shape is self-intersecting. Please use a simple polygon.'')"
proof -
  have 1: "shape_id sliverD \<noteq> shape_id sliverE" by (simp add: sliverD_def sliverE_def)
  have 2: "ringFromShape sliverD = Inl (Error ''A closed shape needs at least 3 points.'')"
    by (simp add: ringFromShape_def sliverD_def Let_def pt_eta msgTooFewPoints_def)
  have 3: "ringFromShape sliverE = Inl (Error ''A closed shape needs at least 3 points.'')"
    by (simp add: ringFromShape_def sliverE_def Let_def pt_eta msgTooFewPoints_def)
  have 4: "shape_id bowtieF \<noteq> shape_id bowtieG" by (simp add: bowtieF_def bowtieG_def)
  have s: "\<not> isSimplePolygon [pt 0 0, pt 2 2, pt 2 0, pt 0 2] (1 / 10 ^ 9)"
    by (simp add: Let_def geom_defs)
  have 5: "ringFromShape bowtieF =
     Inl (Error ''This shape is self-intersecting. Please use a simple polygon.'')"
    using s by (simp add: ringFromShape_def bowtieF_def Let_def pt_eta msgSelfIntersecting_def)
  have 6: "ringFromShape bowtieG =
     Inl (Error ''This shape is self-intersecting. Please use a simple polygon.'')"
    using s by (simp add: ringFromShape_def bowtieG_def Let_def pt_eta msgSelfIntersecting_def)
  from 1 2 3 4 5 6 show ?thesis by (intro conjI)
qed




section \<open>Cut-line estimator\<close>

lemma foldl_accMin: "foldl accMin (Some m) zs = Some (fold min zs m)"
  by (induction zs arbitrary: m) (simp_all add: accMin_def min.commute)

lemma foldl_accMax: "foldl accMax (Some m) zs = Some (fold max zs m)"
  by (induction zs arbitrary: m) (simp_all add: accMax_def max.commute)

lemma foldl_accMin_None:
  assumes "zs \<noteq> []"
  shows "foldl accMin None zs = Some (Min (set zs))"
proof (cases zs)
  case Nil
  with assms show ?thesis by simp
next
  case (Cons a list)
  have "Min (set (a # list)) = fold min list a" by (rule Min.set_eq_fold)
  with Cons show ?thesis by (simp add: foldl_accMin accMin_def)
qed

lemma foldl_accMax_None:
  assumes "zs \<noteq> []"
  shows "foldl accMax None zs = Some (Max (set zs))"
proof (cases zs)
  case Nil
  with assms show ?thesis by simp
next
  case (Cons a list)
  have "Max (set (a # list)) = fold max list a" by (rule Max.set_eq_fold)
  with Cons show ?thesis by (simp add: foldl_accMax accMax_def)
qed

lemma bboxLoop_foldl:
  "bboxLoop ps (a, b, c, d) =
     (foldl accMin a (map px ps), foldl accMin b (map py ps),
      foldl accMax c (map px ps), foldl accMax d (map py ps))"
  by (induction ps arbitrary: a b c d) simp_all

lemma bboxOfPoints_nonempty:
  assumes "ps \<noteq> []"
  shows "bboxOfPoints ps = \<lparr>minX = Min (set (map px ps)), minY = Min (set (map py ps)),
                           maxX = Max (set (map px ps)), maxY = Max (set (map py ps))\<rparr>"
  using assms
  by (simp add: bboxOfPoints_def bboxLoop_foldl foldl_accMin_None foldl_accMax_None)

lemma bboxOfPoints_empty: "bboxOfPoints [] = \<lparr>minX = 0, minY = 0, maxX = 0, maxY = 0\<rparr>"
  by (simp add: bboxOfPoints_def)

lemma cutLineOf_nonempty:
  assumes "vertices sk \<noteq> []"
  shows "cutLineOf sk vp =
     (pt 0 ((Min (set (map (\<lambda>v. fst (snd v)) (vertices sk))) +
             Max (set (map (\<lambda>v. fst (snd v)) (vertices sk)))) / 2),
      pt (vp_w vp) ((Min (set (map (\<lambda>v. fst (snd v)) (vertices sk))) +
             Max (set (map (\<lambda>v. fst (snd v)) (vertices sk)))) / 2))"
proof -
  have "map py (map (\<lambda>v. case v of (vx, vy, vt) \<Rightarrow> pt vx vy) (vertices sk)) =
        map (\<lambda>v. fst (snd v)) (vertices sk)"
    by (simp add: pt_def split_def)
  with assms show ?thesis
    by (simp add: cutLineOf_def Let_def bboxOfPoints_nonempty del: set_map map_map)
qed

lemma cutLineOf_empty:
  "vertices sk = [] \<Longrightarrow> cutLineOf sk vp = (pt 0 0, pt (vp_w vp) 0)"
  by (simp add: cutLineOf_def bboxOfPoints_empty)

lemma run_Inr:
  assumes "run str solver shapes sel vp = Inr res"
  shows "\<exists>br. buildRingsFromProject shapes sel = Inr br \<and>
           solver (rings br) = Some (res_skeleton res) \<and>
           res_rings res = rings br \<and>
           res_cutLine res = cutLineOf (res_skeleton res) vp"
  using assms
  by (auto simp add: run_def Let_def split: sum.splits option.splits)

text \<open>
  Claim C9.  For every successful engine run (the ring builder succeeds and the
  solver returns the skeleton of the result) with a viewport of width \<open>w\<close>: the
  returned cut line is the horizontal segment from \<open>(0, y)\<close> to \<open>(w, y)\<close>, where
  \<open>y\<close> is the midpoint of the minimum and the maximum \<open>y\<close> coordinate over all
  skeleton vertices; for a skeleton without vertices \<open>y\<close> is 0.
\<close>

theorem cut_line_midpoint:
  assumes "run str solver shapes sel vp = Inr res"
  shows "(\<exists>br. buildRingsFromProject shapes sel = Inr br \<and>
            solver (rings br) = Some (res_skeleton res)) \<and>
         (if vertices (res_skeleton res) = []
          then res_cutLine res = (pt 0 0, pt (vp_w vp) 0)
          else res_cutLine res =
            (pt 0 ((Min (set (map (\<lambda>v. fst (snd v)) (vertices (res_skeleton res)))) +
                    Max (set (map (\<lambda>v. fst (snd v)) (vertices (res_skeleton res))))) / 2),
             pt (vp_w vp)
                  ((Min (set (map (\<lambda>v. fst (snd v)) (vertices (res_skeleton res)))) +
                    Max (set (map (\<lambda>v. fst (snd v)) (vertices (res_skeleton res))))) / 2)))"
proof -
  from run_Inr [OF assms] obtain br where
    b: "buildRingsFromProject shapes sel = Inr br" "solver (rings br) = Some (res_skeleton res)"
    and c: "res_cutLine res = cutLineOf (res_skeleton res) vp" by blast
  show ?thesis
  proof (cases "vertices (res_skeleton res) = []")
    case True
    with b c show ?thesis by (auto simp add: cutLineOf_empty)
  next
    case False
    from cutLineOf_nonempty [OF False] b c False show ?thesis by auto
  qed
qed

section \<open>Mountain creases: interior edges of the skeleton\<close>

lemma countEdge_edgeKeyAt:
  "countEdge poly m i = (case edgeKeyAt poly i of None \<Rightarrow> m | Some k \<Rightarrow> bumpCount k m)"
  by (simp add: countEdge_def edgeKeyAt_def Let_def)

lemma foldl_countEdge:
  "foldl (countEdge poly) m is = foldl (\<lambda>m k. bumpCount k m) m (List.map_filter (edgeKeyAt poly) is)"
  by (induction "is" arbitrary: m)
     (simp_all add: countEdge_edgeKeyAt List.map_filter_simps split: option.splits)

lemma countFace_faceEdges:
  "countFace m poly = foldl (\<lambda>m k. bumpCount k m) m (faceEdges poly)"
  by (simp add: countFace_def faceEdges_def foldl_countEdge)

lemma foldl_countFace:
  "foldl countFace m polys = foldl (\<lambda>m k. bumpCount k m) m (concat (map faceEdges polys))"
  by (induction polys arbitrary: m) (simp_all add: countFace_faceEdges)

lemma edgeCounts_concat:
  "edgeCounts polys = foldl (\<lambda>m k. bumpCount k m) [] (concat (map faceEdges polys))"
  by (simp add: edgeCounts_def foldl_countFace)

lemma set_fst_bumpCount: "fst ` set (bumpCount k m) = insert k (fst ` set m)"
proof (induction m)
  case Nil
  show ?case by simp
next
  case (Cons e m)
  obtain k' c where e: "e = (k', c)" by (cases e)
  show ?case
  proof (cases "k = k'")
    case True
    then show ?thesis by (simp add: e)
  next
    case False
    then show ?thesis using Cons.IH by (simp add: e insert_commute)
  qed
qed

lemma distinct_bumpCount: "distinct (map fst m) \<Longrightarrow> distinct (map fst (bumpCount k m))"
proof (induction m)
  case Nil
  then show ?case by simp
next
  case (Cons e m)
  obtain k' c where e: "e = (k', c)" by (cases e)
  show ?case
  proof (cases "k = k'")
    case True
    with Cons.prems e show ?thesis by simp
  next
    case False
    from Cons have "distinct (map fst (bumpCount k m))" by simp
    moreover have "k' \<notin> fst ` set (bumpCount k m)"
      using Cons.prems False e by (simp add: set_fst_bumpCount)
    ultimately show ?thesis using False e by simp
  qed
qed

lemma map_of_bumpCount:
  "map_of (bumpCount k m) k' =
     (if k' = k then Some (case map_of m k of None \<Rightarrow> 1 | Some c \<Rightarrow> c + 1) else map_of m k')"
  by (induction m) (auto split: if_splits)

lemma foldl_bumpCount:
  assumes "distinct (map fst m)"
  shows "distinct (map fst (foldl (\<lambda>m k. bumpCount k m) m ks)) \<and>
         (\<forall>k. map_of (foldl (\<lambda>m k. bumpCount k m) m ks) k =
            (if k \<in> set ks then Some ((case map_of m k of None \<Rightarrow> 0 | Some c \<Rightarrow> c) + count_list ks k)
             else map_of m k))"
  using assms
proof (induction ks arbitrary: m)
  case Nil
  then show ?case by simp
next
  case (Cons a ks)
  have d: "distinct (map fst (bumpCount a m))" using Cons.prems by (rule distinct_bumpCount)
  from Cons.IH [OF d] show ?case
    by (auto simp add: map_of_bumpCount split: option.splits)
qed

lemma edgeCounts_props:
  "distinct (map fst (edgeCounts polys))"
  "map_of (edgeCounts polys) k =
     (if k \<in> set (concat (map faceEdges polys))
      then Some (count_list (concat (map faceEdges polys)) k) else None)"
proof -
  have d: "distinct (map fst ([] :: ((nat \<times> nat) \<times> nat) list))" by simp
  note f = foldl_bumpCount [OF d, of "concat (map faceEdges polys)"]
  from f show "distinct (map fst (edgeCounts polys))"
    unfolding edgeCounts_concat by (rule conjunct1)
  from f have "map_of (edgeCounts polys) k =
     (if k \<in> set (concat (map faceEdges polys))
      then Some ((case map_of [] k of None \<Rightarrow> 0 | Some c \<Rightarrow> c) +
                 count_list (concat (map faceEdges polys)) k)
      else map_of [] k)"
    unfolding edgeCounts_concat by (elim conjE allE)
  then show "map_of (edgeCounts polys) k =
     (if k \<in> set (concat (map faceEdges polys))
      then Some (count_list (concat (map faceEdges polys)) k) else None)"
    by (simp del: set_concat)
qed

lemma interiorEdge_cases:
  "interiorEdge verts (k, c) = None \<or> interiorEdge verts (k, c) = Some k"
  by (cases k) (auto simp add: interiorEdge_def Let_def split: option.splits prod.splits)

lemma interiorEdge_Some_fst: "interiorEdge verts e = Some k \<Longrightarrow> fst e = k"
  using interiorEdge_cases [of verts "fst e" "snd e"] by auto

lemma count_list_map_filter_distinct:
  assumes "distinct (map fst m)"
    and "\<And>e k. f e = Some k \<Longrightarrow> fst e = k"
  shows "count_list (List.map_filter f m) k =
     (case map_of m k of None \<Rightarrow> 0 | Some c \<Rightarrow> if f (k, c) = Some k then 1 else 0)"
  using assms(1)
proof (induction m)
  case Nil
  show ?case by (simp add: List.map_filter_simps)
next
  case (Cons e m)
  obtain k' c where e: "e = (k', c)" by (cases e)
  from Cons have IH: "count_list (List.map_filter f m) k =
     (case map_of m k of None \<Rightarrow> 0 | Some c \<Rightarrow> if f (k, c) = Some k then 1 else 0)"
    and notin: "k' \<notin> fst ` set m" by (simp_all add: e)
  show ?case
  proof (cases "k' = k")
    case True
    with notin have "map_of m k = None" by (simp add: map_of_eq_None_iff)
    with IH have z: "count_list (List.map_filter f m) k = 0" by simp
    show ?thesis
    proof (cases "f (k, c)")
      case None
      with z True show ?thesis by (simp add: e List.map_filter_simps)
    next
      case (Some k2)
      with assms(2) [of "(k, c)" k2] have "k2 = k" by simp
      with Some z True show ?thesis by (simp add: e List.map_filter_simps)
    qed
  next
    case False
    have "f e \<noteq> Some k" using assms(2) [of e k] False by (auto simp add: e)
    with IH False show ?thesis
      by (cases "f e") (simp_all add: e List.map_filter_simps)
  qed
qed

lemma count_extract:
  "count_list (extractInteriorEdgesFromSkeleton sk) k =
     (case map_of (edgeCounts (polygons sk)) k of
        None \<Rightarrow> 0
      | Some c \<Rightarrow> if interiorEdge (vertices sk) (k, c) = Some k then 1 else 0)"
  unfolding extractInteriorEdgesFromSkeleton_def
  by (rule count_list_map_filter_distinct [OF edgeCounts_props(1)])
     (rule interiorEdge_Some_fst)

lemma count_list_concat_ge:
  "length (filter (\<lambda>zs. k \<in> set zs) zss) \<le> count_list (concat zss) k"
proof (induction zss)
  case Nil
  show ?case by simp
next
  case (Cons zs zss)
  have "k \<in> set zs \<Longrightarrow> 1 \<le> count_list zs k"
    using count_list_0_iff [of zs k] by (cases "count_list zs k") simp_all
  with Cons show ?case by auto
qed

lemma count_list_distinct:
  "distinct zs \<Longrightarrow> count_list zs k = (if k \<in> set zs then 1 else 0)"
  by (induction zs) auto

lemma count_list_concat_eq:
  assumes "\<And>zs. zs \<in> set zss \<Longrightarrow> distinct zs"
  shows "count_list (concat zss) k = length (filter (\<lambda>zs. k \<in> set zs) zss)"
  using assms
proof (induction zss)
  case Nil
  show ?case by simp
next
  case (Cons zs zss)
  have "distinct zs" using Cons.prems by simp
  then have "count_list zs k = (if k \<in> set zs then 1 else 0)"
    by (rule count_list_distinct)
  with Cons show ?case by simp
qed

lemma distinct_map_filter:
  assumes "distinct zs"
    and "\<And>i j k. i \<in> set zs \<Longrightarrow> j \<in> set zs \<Longrightarrow> f i = Some k \<Longrightarrow> f j = Some k \<Longrightarrow> i = j"
  shows "distinct (List.map_filter f zs)"
  using assms
proof (induction zs)
  case Nil
  show ?case by (simp add: List.map_filter_simps)
next
  case (Cons z zs)
  have IH: "distinct (List.map_filter f zs)" using Cons by simp
  show ?case
  proof (cases "f z")
    case None
    with IH show ?thesis by (simp add: List.map_filter_simps)
  next
    case (Some k)
    have "k \<notin> set (List.map_filter f zs)"
    proof
      assume "k \<in> set (List.map_filter f zs)"
      then obtain j where j: "j \<in> set zs" "f j = Some k"
        by (auto simp add: List.map_filter_def)
      with Cons.prems(2) [of z j k] Some have "z = j" by simp
      with j(1) Cons.prems(1) show False by simp
    qed
    with IH Some show ?thesis by (simp add: List.map_filter_simps)
  qed
qed

lemma set_faceEdges:
  "k \<in> set (faceEdges poly) \<longleftrightarrow> (\<exists>i<length poly. edgeKeyAt poly i = Some k)"
proof -
  have "k \<in> set (List.map_filter f zs) \<longleftrightarrow> (\<exists>z\<in>set zs. f z = Some k)" for f :: "nat \<Rightarrow> (nat \<times> nat) option" and zs
    by (induction zs) (auto split: option.splits)
  then show ?thesis by (auto simp add: faceEdges_def)
qed

lemma minmax_pair_eq:
  fixes a b c d :: nat
  shows "(min c d, max c d) = (min a b, max a b) \<longleftrightarrow> (c = a \<and> d = b) \<or> (c = b \<and> d = a)"
  by (auto simp add: min_def max_def)

lemma edgeKeyAt_Some:
  assumes "a \<noteq> b"
  shows "edgeKeyAt poly i = Some (min a b, max a b) \<longleftrightarrow>
     (poly ! i = a \<and> poly ! ((i + 1) mod length poly) = b) \<or>
     (poly ! i = b \<and> poly ! ((i + 1) mod length poly) = a)"
  using assms by (auto simp add: edgeKeyAt_def Let_def minmax_pair_eq)

lemma inCycle_faceEdges:
  assumes "a \<noteq> b"
  shows "inCycle poly a b \<longleftrightarrow> (min a b, max a b) \<in> set (faceEdges poly)"
  unfolding set_faceEdges inCycle_def list_ex_iff
  by (auto simp add: edgeKeyAt_Some [OF assms])

lemma faceEdges_ordered: "k \<in> set (faceEdges poly) \<Longrightarrow> fst k < snd k"
  by (auto simp add: set_faceEdges edgeKeyAt_def Let_def min_def max_def split: if_splits)

lemma succ_mod:
  assumes "i < n"
  shows "(i + 1) mod n = (if Suc i = n then 0 else Suc i)"
  using assms by (auto simp add: mod_Suc)

lemma distinct_faceEdges:
  assumes d: "distinct poly" and n: "3 \<le> length poly"
  shows "distinct (faceEdges poly)"
  unfolding faceEdges_def
proof (rule distinct_map_filter)
  show "distinct [0..<length poly]" by simp
next
  fix i j k
  assume i: "i \<in> set [0..<length poly]" and j: "j \<in> set [0..<length poly]"
    and ki: "edgeKeyAt poly i = Some k" and kj: "edgeKeyAt poly j = Some k"
  let ?n = "length poly"
  let ?i' = "(i + 1) mod ?n" and ?j' = "(j + 1) mod ?n"
  from i j have il: "i < ?n" and jl: "j < ?n" by simp_all
  then have "0 < ?n" by (cases poly) simp_all
  then have i'l: "?i' < ?n" and j'l: "?j' < ?n" by (rule mod_less_divisor)+
  from ki kj have "(min (poly ! i) (poly ! ?i'), max (poly ! i) (poly ! ?i')) =
      (min (poly ! j) (poly ! ?j'), max (poly ! j) (poly ! ?j'))"
    by (auto simp add: edgeKeyAt_def Let_def split: if_splits)
  then have "(poly ! i = poly ! j \<and> poly ! ?i' = poly ! ?j') \<or>
             (poly ! i = poly ! ?j' \<and> poly ! ?i' = poly ! j)"
    by (simp only: minmax_pair_eq)
  then have "i = j \<or> (i = ?j' \<and> ?i' = j)"
    using d il jl i'l j'l by (auto simp add: nth_eq_iff_index_eq)
  moreover have "\<not> (i = ?j' \<and> ?i' = j)"
  proof
    assume a: "i = ?j' \<and> ?i' = j"
    have j': "?j' = (if Suc j = ?n then 0 else Suc j)" using jl by (rule succ_mod)
    have i': "?i' = (if Suc i = ?n then 0 else Suc i)" using il by (rule succ_mod)
    from a have "i = ?j'" "?i' = j" by blast+
    then have "i = (if Suc j = ?n then 0 else Suc j)" "(if Suc i = ?n then 0 else Suc i) = j"
      unfolding i' j' by blast+
    with n show False by (auto split: if_splits)
  qed
  ultimately show "i = j" by blast
qed

lemma in_concat_faceEdges:
  "k \<in> set (concat (map faceEdges polys)) \<longleftrightarrow> (\<exists>poly\<in>set polys. k \<in> set (faceEdges poly))"
  by auto

lemma filter_faces_faceEdges:
  "filter (\<lambda>zs. k \<in> set zs) (map faceEdges polys) =
   map faceEdges (filter (\<lambda>poly. k \<in> set (faceEdges poly)) polys)"
  by (induction polys) simp_all

lemma occurrences_ge:
  "length (filter (\<lambda>poly. k \<in> set (faceEdges poly)) polys) \<le>
   count_list (concat (map faceEdges polys)) k"
  using count_list_concat_ge [of k "map faceEdges polys"]
  by (simp add: filter_faces_faceEdges)

lemma occurrences_eq:
  assumes "\<And>poly. poly \<in> set polys \<Longrightarrow> distinct poly \<and> 3 \<le> length poly"
  shows "count_list (concat (map faceEdges polys)) k =
     length (filter (\<lambda>poly. k \<in> set (faceEdges poly)) polys)"
proof -
  have "\<And>zs. zs \<in> set (map faceEdges polys) \<Longrightarrow> distinct zs"
    using assms by (auto simp add: distinct_faceEdges)
  from count_list_concat_eq [of "map faceEdges polys" k, OF this] show ?thesis
    by (simp add: filter_faces_faceEdges)
qed

lemma interiorEdge_Some_iff:
  "interiorEdge verts ((i0, i1), c) = Some (i0, i1) \<longleftrightarrow>
     2 \<le> c \<and> (\<exists>v0 v1. nthOpt verts i0 = Some v0 \<and> nthOpt verts i1 = Some v1 \<and>
                1 / 10 ^ 10 \<le> vertexDist2 v0 v1)"
  by (auto simp add: interiorEdge_def vertexDist2_def Let_def not_less
      split: option.splits prod.splits)

lemma extract_ordered:
  assumes "e \<in> set (extractInteriorEdgesFromSkeleton sk)"
  shows "fst e < snd e"
proof -
  from assms obtain en where en: "en \<in> set (edgeCounts (polygons sk))"
    and ie: "interiorEdge (vertices sk) en = Some e"
    by (auto simp add: extractInteriorEdgesFromSkeleton_def List.map_filter_def
        split: option.splits)
  from ie have "fst en = e" by (rule interiorEdge_Some_fst)
  with en have "map_of (edgeCounts (polygons sk)) e \<noteq> None"
    by (metis fst_conv image_eqI map_of_eq_None_iff)
  then have "e \<in> set (concat (map faceEdges (polygons sk)))"
    by (simp add: edgeCounts_props(2) del: set_concat split: if_splits)
  then obtain poly where "e \<in> set (faceEdges poly)" by auto
  then show ?thesis by (rule faceEdges_ordered)
qed

lemma emitted_iff:
  assumes ab: "a \<noteq> b"
  shows "count_list (extractInteriorEdgesFromSkeleton sk) (min a b, max a b) =
     (if 2 \<le> count_list (concat (map faceEdges (polygons sk))) (min a b, max a b) \<and>
         (\<exists>va vb. nthOpt (vertices sk) a = Some va \<and> nthOpt (vertices sk) b = Some vb \<and>
                  1 / 10 ^ 10 \<le> vertexDist2 va vb)
      then 1 else 0)"
proof -
  let ?k = "(min a b, max a b)"
  let ?ks = "concat (map faceEdges (polygons sk))"
  have sym: "(\<exists>v0 v1. nthOpt (vertices sk) (min a b) = Some v0 \<and>
                nthOpt (vertices sk) (max a b) = Some v1 \<and> 1 / 10 ^ 10 \<le> vertexDist2 v0 v1) \<longleftrightarrow>
             (\<exists>va vb. nthOpt (vertices sk) a = Some va \<and> nthOpt (vertices sk) b = Some vb \<and>
                  1 / 10 ^ 10 \<le> vertexDist2 va vb)"
  proof (cases "a \<le> b")
    case True
    then show ?thesis by (simp add: min_def max_def)
  next
    case False
    have "vertexDist2 v0 v1 = vertexDist2 v1 v0" for v0 v1
      by (simp add: vertexDist2_def algebra_simps)
    with False show ?thesis by (auto simp add: min_def max_def)
  qed
  show ?thesis
  proof (cases "?k \<in> set ?ks")
    case True
    then have m: "map_of (edgeCounts (polygons sk)) ?k = Some (count_list ?ks ?k)"
      by (simp only: edgeCounts_props(2) if_True)
    show ?thesis
      unfolding count_extract m option.case interiorEdge_Some_iff sym by simp
  next
    case False
    then have m: "map_of (edgeCounts (polygons sk)) ?k = None"
      by (simp only: edgeCounts_props(2) if_False)
    from False have "count_list ?ks ?k = 0" by (simp only: count_list_0_iff not_False_eq_True)
    then show ?thesis unfolding count_extract m by simp
  qed
qed

text \<open>
  Claim C1.  For every skeleton and every pair of vertex indices \<open>a\<close>, \<open>b\<close>:
  mountain-crease extraction emits the pair, as \<open>(min a b, max a b)\<close>, exactly
  once when the pair is an edge of the boundary cycles of two or more faces and
  the squared distance of its endpoints is at least 1e-10; it does not emit the
  pair when it is an edge of exactly one face's cycle (the faces being index
  cycles: at least three indices, none repeated); and it does not emit a pair
  whose endpoints have squared distance below 1e-10.  Every emitted pair is
  ordered, so an undirected pair has no other representation in the output.
\<close>

theorem interior_edges:
  "(\<forall>va vb. 2 \<le> length (filter (\<lambda>poly. inCycle poly a b) (polygons sk)) \<and>
      nthOpt (vertices sk) a = Some va \<and> nthOpt (vertices sk) b = Some vb \<and>
      1 / 10 ^ 10 \<le> vertexDist2 va vb \<longrightarrow>
      count_list (extractInteriorEdgesFromSkeleton sk) (min a b, max a b) = 1) \<and>
   ((\<forall>poly\<in>set (polygons sk). distinct poly \<and> 3 \<le> length poly) \<and>
      length (filter (\<lambda>poly. inCycle poly a b) (polygons sk)) = 1 \<longrightarrow>
      (min a b, max a b) \<notin> set (extractInteriorEdgesFromSkeleton sk)) \<and>
   (\<forall>va vb. nthOpt (vertices sk) a = Some va \<and> nthOpt (vertices sk) b = Some vb \<and>
      vertexDist2 va vb < 1 / 10 ^ 10 \<longrightarrow>
      (min a b, max a b) \<notin> set (extractInteriorEdgesFromSkeleton sk)) \<and>
   (\<forall>e\<in>set (extractInteriorEdgesFromSkeleton sk). fst e < snd e)"
proof (intro conjI allI impI ballI)
  fix va vb
  assume h: "2 \<le> length (filter (\<lambda>poly. inCycle poly a b) (polygons sk)) \<and>
      nthOpt (vertices sk) a = Some va \<and> nthOpt (vertices sk) b = Some vb \<and>
      1 / 10 ^ 10 \<le> vertexDist2 va vb"
  have ab: "a \<noteq> b"
  proof
    assume "a = b"
    with h have "va = vb" by auto
    then have "vertexDist2 va vb = 0" by (simp add: vertexDist2_def)
    with h show False by simp
  qed
  have "length (filter (\<lambda>poly. inCycle poly a b) (polygons sk)) \<le>
        count_list (concat (map faceEdges (polygons sk))) (min a b, max a b)"
    unfolding inCycle_faceEdges [OF ab] by (rule occurrences_ge)
  with h have "2 \<le> count_list (concat (map faceEdges (polygons sk))) (min a b, max a b)"
    by simp
  with h show "count_list (extractInteriorEdgesFromSkeleton sk) (min a b, max a b) = 1"
    unfolding emitted_iff [OF ab] by auto
next
  assume h: "(\<forall>poly\<in>set (polygons sk). distinct poly \<and> 3 \<le> length poly) \<and>
      length (filter (\<lambda>poly. inCycle poly a b) (polygons sk)) = 1"
  show "(min a b, max a b) \<notin> set (extractInteriorEdgesFromSkeleton sk)"
  proof (cases "a = b")
    case True
    show ?thesis
    proof
      assume "(min a b, max a b) \<in> set (extractInteriorEdgesFromSkeleton sk)"
      from extract_ordered [OF this] True show False by simp
    qed
  next
    case False
    have "count_list (concat (map faceEdges (polygons sk))) (min a b, max a b) =
        length (filter (\<lambda>poly. inCycle poly a b) (polygons sk))"
      unfolding inCycle_faceEdges [OF False] using h by (intro occurrences_eq) simp
    with h have "count_list (concat (map faceEdges (polygons sk))) (min a b, max a b) = 1"
      by simp
    then have "count_list (extractInteriorEdgesFromSkeleton sk) (min a b, max a b) = 0"
      unfolding emitted_iff [OF False] by simp
    then show ?thesis by (simp add: count_list_0_iff)
  qed
next
  fix va vb
  assume h: "nthOpt (vertices sk) a = Some va \<and> nthOpt (vertices sk) b = Some vb \<and>
      vertexDist2 va vb < 1 / 10 ^ 10"
  show "(min a b, max a b) \<notin> set (extractInteriorEdgesFromSkeleton sk)"
  proof (cases "a = b")
    case True
    show ?thesis
    proof
      assume "(min a b, max a b) \<in> set (extractInteriorEdgesFromSkeleton sk)"
      from extract_ordered [OF this] True show False by simp
    qed
  next
    case False
    from h have "count_list (extractInteriorEdgesFromSkeleton sk) (min a b, max a b) = 0"
      unfolding emitted_iff [OF False] by auto
    then show ?thesis by (simp add: count_list_0_iff)
  qed
next
  fix e
  assume "e \<in> set (extractInteriorEdgesFromSkeleton sk)"
  then show "fst e < snd e" by (rule extract_ordered)
qed

theorem interior_edges_witness:
  "length (filter (\<lambda>poly. inCycle poly 1 4) (polygons squareSkeleton)) = 2 \<and>
   nthOpt (vertices squareSkeleton) 1 = Some (10, 0, 0) \<and>
   nthOpt (vertices squareSkeleton) 4 = Some (5, 5, 5) \<and>
   1 / 10 ^ 10 \<le> vertexDist2 (10, 0, 0) (5, 5, 5) \<and>
   count_list (extractInteriorEdgesFromSkeleton squareSkeleton) (1, 4) = 1 \<and>
   list_all (\<lambda>poly. distinct poly \<and> 3 \<le> length poly) (polygons squareSkeleton) \<and>
   length (filter (\<lambda>poly. inCycle poly 0 1) (polygons squareSkeleton)) = 1 \<and>
   (0, 1) \<notin> set (extractInteriorEdgesFromSkeleton squareSkeleton) \<and>
   length (filter (\<lambda>poly. inCycle poly 0 1) (polygons coincidentSkeleton)) = 2 \<and>
   nthOpt (vertices coincidentSkeleton) 0 = Some (0, 0, 0) \<and>
   nthOpt (vertices coincidentSkeleton) 1 = Some (0, 0, 0) \<and>
   vertexDist2 (0, 0, 0) (0, 0, 0) < 1 / 10 ^ 10 \<and>
   (0, 1) \<notin> set (extractInteriorEdgesFromSkeleton coincidentSkeleton)"
proof -
  have 1: "length (filter (\<lambda>poly. inCycle poly 1 4) (polygons squareSkeleton)) = 2"
    by (simp add: squareSkeleton_def inCycle_def)
  have 2: "nthOpt (vertices squareSkeleton) 1 = Some (10, 0, 0)"
    by (simp add: squareSkeleton_def nthOpt_def)
  have 3: "nthOpt (vertices squareSkeleton) 4 = Some (5, 5, 5)"
    by (simp add: squareSkeleton_def nthOpt_def)
  have 4: "1 / 10 ^ 10 \<le> vertexDist2 (10, 0, 0) (5, 5, 5)"
    by (simp add: vertexDist2_def)
  have 5: "count_list (extractInteriorEdgesFromSkeleton squareSkeleton) (1, 4) = 1"
    using interior_edges [of 1 4 squareSkeleton] 1 2 3 4 by simp
  have 6: "list_all (\<lambda>poly. distinct poly \<and> 3 \<le> length poly) (polygons squareSkeleton)"
    by (simp add: squareSkeleton_def)
  have 7: "length (filter (\<lambda>poly. inCycle poly 0 1) (polygons squareSkeleton)) = 1"
    by (simp add: squareSkeleton_def inCycle_def)
  have 8: "(0, 1) \<notin> set (extractInteriorEdgesFromSkeleton squareSkeleton)"
    using interior_edges [of 0 1 squareSkeleton] 6 7 by (simp add: list_all_iff)
  have 9: "length (filter (\<lambda>poly. inCycle poly 0 1) (polygons coincidentSkeleton)) = 2"
    by (simp add: coincidentSkeleton_def inCycle_def)
  have 10: "nthOpt (vertices coincidentSkeleton) 0 = Some (0, 0, 0)"
    by (simp add: coincidentSkeleton_def nthOpt_def)
  have 11: "nthOpt (vertices coincidentSkeleton) 1 = Some (0, 0, 0)"
    by (simp add: coincidentSkeleton_def nthOpt_def)
  have 12: "vertexDist2 (0, 0, 0) (0, 0, 0) < 1 / 10 ^ 10"
    by (simp add: vertexDist2_def)
  have 13: "(0, 1) \<notin> set (extractInteriorEdgesFromSkeleton coincidentSkeleton)"
    using interior_edges [of 0 1 coincidentSkeleton] 10 11 12 by simp
  from 1 2 3 4 5 6 7 8 9 10 11 12 13 show ?thesis by (intro conjI)
qed

text \<open>
  The count is per occurrence, not per face: a degenerate face of two indices
  lists its only pair twice, and the pair is then emitted.
\<close>

lemma degenerate_face_counted_twice:
  "extractInteriorEdgesFromSkeleton \<lparr>vertices = [(0, 0, 0), (10, 0, 0)], polygons = [[0, 1]]\<rparr> =
     [(0, 1)]"
  by (simp add: extractInteriorEdgesFromSkeleton_def edgeCounts_def countFace_def
      countEdge_def Let_def interiorEdge_def nthOpt_def)

section \<open>Valley creases: deduplication by quantized key\<close>

lemma keyForUndirectedEdge_sym:
  "keyForUndirectedEdge str a b q = keyForUndirectedEdge str b a q"
  by (auto simp add: keyForUndirectedEdge_def Let_def)

lemma keyForUndirectedEdge_cong:
  assumes "quantizePoint a q = quantizePoint a' q" and "quantizePoint b q = quantizePoint b' q"
  shows "keyForUndirectedEdge str a b q = keyForUndirectedEdge str a' b' q"
  using assms by (simp add: keyForUndirectedEdge_def)

lemma sameQuantizedEdge_key:
  assumes "sameQuantizedEdge s1 s2"
  shows "segmentKey str s2 = segmentKey str s1"
proof -
  let ?q = "1 / 10 ^ 2 :: real"
  from assms consider
      (same) "quantizePoint (fst s1) ?q = quantizePoint (fst s2) ?q"
             "quantizePoint (snd s1) ?q = quantizePoint (snd s2) ?q"
    | (swap) "quantizePoint (fst s1) ?q = quantizePoint (snd s2) ?q"
             "quantizePoint (snd s1) ?q = quantizePoint (fst s2) ?q"
    by (auto simp add: sameQuantizedEdge_def Let_def)
  then show ?thesis
  proof cases
    case same
    then show ?thesis
      unfolding segmentKey_def by (intro keyForUndirectedEdge_cong) simp_all
  next
    case swap
    have "segmentKey str s2 = keyForUndirectedEdge str (snd s2) (fst s2) ?q"
      unfolding segmentKey_def by (rule keyForUndirectedEdge_sym)
    also have "\<dots> = keyForUndirectedEdge str (fst s1) (snd s1) ?q"
      using swap by (intro keyForUndirectedEdge_cong) simp_all
    finally show ?thesis by (simp add: segmentKey_def)
  qed
qed

lemma addValley_inv:
  assumes "seenInv str st"
  shows "seenInv str (addValley str st seg)"
    and "snd (addValley str st seg) = insert (segmentKey str seg) (snd st)"
  using assms
  by (auto simp add: seenInv_def addValley_def Let_def creaseKey_def segmentKey_def
      split: prod.splits)

lemma foldl_addValley_inv:
  assumes "seenInv str st"
  shows "seenInv str (foldl (addValley str) st segs) \<and>
         snd (foldl (addValley str) st segs) = snd st \<union> segmentKey str ` set segs"
  using assms
proof (induction segs arbitrary: st)
  case Nil
  then show ?case by simp
next
  case (Cons seg segs)
  from Cons.IH [OF addValley_inv(1) [OF Cons.prems]] addValley_inv(2) [OF Cons.prems]
  show ?case by auto
qed

lemma perpendicularsLoop_inv:
  assumes "seenInv str st" and "perpendicularsLoop str verts polys st = Inr out"
  shows "seenInv str (out, snd st \<union>
            {segmentKey str seg | seg poly face.
               poly \<in> set polys \<and> faceOf verts poly = Inr face \<and> seg \<in> set (faceSegments face)})"
  using assms
proof (induction polys arbitrary: st)
  case Nil
  then show ?case by (cases st) (simp add: seenInv_def)
next
  case (Cons poly polys)
  from Cons.prems(2) obtain face where f: "faceOf verts poly = Inr face"
    and l: "perpendicularsLoop str verts polys (foldl (addValley str) st (faceSegments face)) = Inr out"
    by (auto split: sum.splits)
  let ?st' = "foldl (addValley str) st (faceSegments face)"
  from foldl_addValley_inv [OF Cons.prems(1)]
  have i: "seenInv str ?st'" and s: "snd ?st' = snd st \<union> segmentKey str ` set (faceSegments face)"
    by blast+
  have "snd ?st' \<union> {segmentKey str seg | seg poly face.
               poly \<in> set polys \<and> faceOf verts poly = Inr face \<and> seg \<in> set (faceSegments face)} =
        snd st \<union> {segmentKey str seg | seg p face.
               p \<in> set (poly # polys) \<and> faceOf verts p = Inr face \<and> seg \<in> set (faceSegments face)}"
    unfolding s using f by auto
  with Cons.IH [OF i l] show ?case by simp
qed

lemma filter_key_distinct:
  assumes "distinct (map f zs)" and "k \<in> f ` set zs"
  shows "length (filter (\<lambda>z. f z = k) zs) = 1"
  using assms
proof (induction zs)
  case Nil
  then show ?case by simp
next
  case (Cons z zs)
  show ?case
  proof (cases "f z = k")
    case True
    with Cons.prems(1) have "k \<notin> f ` set zs" by simp
    then have "\<forall>y\<in>set zs. f y \<noteq> k" by blast
    then have "filter (\<lambda>z. f z = k) zs = []" by (simp add: filter_empty_conv)
    with True show ?thesis by simp
  next
    case False
    with Cons show ?thesis by auto
  qed
qed

lemma derivedSegment_iff:
  "derivedSegment sk seg \<longleftrightarrow>
     (\<exists>poly face. poly \<in> set (polygons sk) \<and> faceOf (vertices sk) poly = Inr face \<and>
                  seg \<in> set (faceSegments face))"
proof -
  have "(case faceOf (vertices sk) poly of Inl e \<Rightarrow> False
         | Inr face \<Rightarrow> seg \<in> set (faceSegments face)) \<longleftrightarrow>
        (\<exists>face. faceOf (vertices sk) poly = Inr face \<and> seg \<in> set (faceSegments face))"
    for poly
    by (cases "faceOf (vertices sk) poly") simp_all
  then show ?thesis
    unfolding derivedSegment_def list_ex_iff by blast
qed

text \<open>
  Claim C4 (amended).  In valley-crease extraction, for every pair of derived
  perpendicular segments whose endpoints quantize, at the tolerance 1e-2, to
  the same grid points (as undirected segments), exactly one valley crease with
  their key appears in the output: the second segment's quantized
  undirected-edge key equals the first's and it is dropped by the seen-key set.
  No two creases of the output share a key, and all of them are valley creases.
\<close>

theorem valley_deduplication:
  assumes out: "buildPerpendicularsFromFaces str sk = Inr out"
    and s1: "derivedSegment sk s1" and s2: "derivedSegment sk s2"
    and same: "sameQuantizedEdge s1 s2"
  shows "segmentKey str s2 = segmentKey str s1 \<and>
         length (filter (\<lambda>c. creaseKey str c = segmentKey str s1) out) = 1 \<and>
         distinct (map (creaseKey str) out) \<and>
         list_all (\<lambda>c. crease_kind c = KindV) out"
proof -
  have i0: "seenInv str ([], {})" by (simp add: seenInv_def)
  from perpendicularsLoop_inv [OF i0 out [unfolded buildPerpendicularsFromFaces_def]]
  have inv: "seenInv str (out, {segmentKey str seg | seg poly face.
               poly \<in> set (polygons sk) \<and> faceOf (vertices sk) poly = Inr face \<and>
               seg \<in> set (faceSegments face)})" by simp
  then have keys: "creaseKey str ` set out = {segmentKey str seg | seg poly face.
               poly \<in> set (polygons sk) \<and> faceOf (vertices sk) poly = Inr face \<and>
               seg \<in> set (faceSegments face)}"
    and d: "distinct (map (creaseKey str) out)"
    and v: "list_all (\<lambda>c. crease_kind c = KindV) out"
    by (simp_all add: seenInv_def)
  from s1 have "segmentKey str s1 \<in> creaseKey str ` set out"
    unfolding keys derivedSegment_iff by blast
  with d have "length (filter (\<lambda>c. creaseKey str c = segmentKey str s1) out) = 1"
    by (rule filter_key_distinct)
  with sameQuantizedEdge_key [OF same] d v show ?thesis by simp
qed

lemmas perp_defs = faceSegments_def EPS_TIME_def farthestPair_def farthestStep_def Let_def
  normalize_def len_def len2_def sub_def add_def mul_def dot_def cross_def
  perpendicularOf_def bestHit_def bestHitStep_def lineRaySegmentIntersection_def

lemma faceOf_straddling:
  "faceOf (vertices straddlingSkeleton) [0, 1, 2, 3] =
     Inr [\<lparr>fv_i = 0, fv_x = 0, fv_y = 0, fv_t = 0\<rparr>, \<lparr>fv_i = 1, fv_x = 1, fv_y = 0, fv_t = 0\<rparr>,
          \<lparr>fv_i = 2, fv_x = 507 / 1000, fv_y = 1, fv_t = 1\<rparr>,
          \<lparr>fv_i = 3, fv_x = 503 / 1000, fv_y = 1, fv_t = 1\<rparr>]"
  by (simp add: faceOf_def straddlingSkeleton_def nthOpt_def)

lemma faceSegments_straddling:
  "faceSegments [\<lparr>fv_i = 0, fv_x = 0, fv_y = 0, fv_t = 0\<rparr>, \<lparr>fv_i = 1, fv_x = 1, fv_y = 0, fv_t = 0\<rparr>,
          \<lparr>fv_i = 2, fv_x = 507 / 1000, fv_y = 1, fv_t = 1\<rparr>,
          \<lparr>fv_i = 3, fv_x = 503 / 1000, fv_y = 1, fv_t = 1\<rparr>] =
     [(pt (507 / 1000) 1, pt (507 / 1000) 0), (pt (503 / 1000) 1, pt (503 / 1000) 0)]"
  by (simp add: perp_defs)

lemma faceOf_sameCell:
  "faceOf (vertices sameCellSkeleton) [0, 1, 2, 3] =
     Inr [\<lparr>fv_i = 0, fv_x = 0, fv_y = 0, fv_t = 0\<rparr>, \<lparr>fv_i = 1, fv_x = 1, fv_y = 0, fv_t = 0\<rparr>,
          \<lparr>fv_i = 2, fv_x = 503 / 1000, fv_y = 1, fv_t = 1\<rparr>,
          \<lparr>fv_i = 3, fv_x = 501 / 1000, fv_y = 1, fv_t = 1\<rparr>]"
  by (simp add: faceOf_def sameCellSkeleton_def nthOpt_def)

lemma faceSegments_sameCell:
  "faceSegments [\<lparr>fv_i = 0, fv_x = 0, fv_y = 0, fv_t = 0\<rparr>, \<lparr>fv_i = 1, fv_x = 1, fv_y = 0, fv_t = 0\<rparr>,
          \<lparr>fv_i = 2, fv_x = 503 / 1000, fv_y = 1, fv_t = 1\<rparr>,
          \<lparr>fv_i = 3, fv_x = 501 / 1000, fv_y = 1, fv_t = 1\<rparr>] =
     [(pt (503 / 1000) 1, pt (503 / 1000) 0), (pt (501 / 1000) 1, pt (501 / 1000) 0)]"
  by (simp add: perp_defs)

lemma decimalStr_values:
  "decimalStr 0 = ''0''" "decimalStr 1 = ''1''" "decimalStr (1 / 2) = ''0.5''"
  "decimalStr (51 / 100) = ''0.51''"
  by (simp_all add: decimalStr_def Let_def natStr.simps numeral_eq_Suc)

lemma addValley_segmentKey:
  "addValley str (cs, seen) (p, q) =
     (if segmentKey str (p, q) \<in> seen then (cs, seen)
      else (cs @ [valleyCrease p q], insert (segmentKey str (p, q)) seen))"
  by (simp add: addValley_def segmentKey_def valleyCrease_def Let_def)

lemma key_values:
  "segmentKey decimalStr (pt (507 / 1000) 1, pt (507 / 1000) 0) = ''0.51,0|0.51,1''"
  "segmentKey decimalStr (pt (501 / 1000) 1, pt (501 / 1000) 0) = ''0.5,0|0.5,1''"
  "segmentKey decimalStr (pt (503 / 1000) 1, pt (503 / 1000) 0) = ''0.5,0|0.5,1''"
  by (simp_all add: segmentKey_def keyForUndirectedEdge_def Let_def quantizePoint_def
      jsRound_def decimalStr_values)

text \<open>
  Endpoints that differ by less than the tolerance need not share a key: the
  raised vertices of \<open>straddlingSkeleton\<close> are 0.004 apart, on either side of
  the rounding boundary 0.505, and both of their perpendiculars are emitted.
\<close>

theorem close_segments_counterexample:
  "derivedSegment straddlingSkeleton (pt (507 / 1000) 1, pt (507 / 1000) 0) \<and>
   derivedSegment straddlingSkeleton (pt (503 / 1000) 1, pt (503 / 1000) 0) \<and>
   \<bar>507 / 1000 - 503 / 1000\<bar> < (1 / 10 ^ 2 :: real) \<and>
   segmentKey decimalStr (pt (507 / 1000) 1, pt (507 / 1000) 0) = ''0.51,0|0.51,1'' \<and>
   segmentKey decimalStr (pt (503 / 1000) 1, pt (503 / 1000) 0) = ''0.5,0|0.5,1'' \<and>
   buildPerpendicularsFromFaces decimalStr straddlingSkeleton =
     Inr [valleyCrease (pt (507 / 1000) 1) (pt (507 / 1000) 0),
          valleyCrease (pt (503 / 1000) 1) (pt (503 / 1000) 0)]"
proof -
  have p: "polygons straddlingSkeleton = [[0, 1, 2, 3]]" by (simp add: straddlingSkeleton_def)
  have 1: "derivedSegment straddlingSkeleton (pt (507 / 1000) 1, pt (507 / 1000) 0)"
    by (simp add: derivedSegment_def p faceOf_straddling faceSegments_straddling
        del: One_nat_def)
  have 2: "derivedSegment straddlingSkeleton (pt (503 / 1000) 1, pt (503 / 1000) 0)"
    by (simp add: derivedSegment_def p faceOf_straddling faceSegments_straddling
        del: One_nat_def)
  have 3: "\<bar>507 / 1000 - 503 / 1000\<bar> < (1 / 10 ^ 2 :: real)" by simp
  have 4: "segmentKey decimalStr (pt (507 / 1000) 1, pt (507 / 1000) 0) = ''0.51,0|0.51,1''"
    by (rule key_values)
  have 5: "segmentKey decimalStr (pt (503 / 1000) 1, pt (503 / 1000) 0) = ''0.5,0|0.5,1''"
    by (rule key_values)
  have 6: "buildPerpendicularsFromFaces decimalStr straddlingSkeleton =
     Inr [valleyCrease (pt (507 / 1000) 1) (pt (507 / 1000) 0),
          valleyCrease (pt (503 / 1000) 1) (pt (503 / 1000) 0)]"
    by (simp add: buildPerpendicularsFromFaces_def p faceOf_straddling faceSegments_straddling
        addValley_segmentKey key_values del: One_nat_def)
  from 1 2 3 4 5 6 show ?thesis by (intro conjI)
qed

theorem valley_deduplication_witness:
  "buildPerpendicularsFromFaces decimalStr sameCellSkeleton =
     Inr [valleyCrease (pt (503 / 1000) 1) (pt (503 / 1000) 0)] \<and>
   derivedSegment sameCellSkeleton (pt (503 / 1000) 1, pt (503 / 1000) 0) \<and>
   derivedSegment sameCellSkeleton (pt (501 / 1000) 1, pt (501 / 1000) 0) \<and>
   sameQuantizedEdge (pt (503 / 1000) 1, pt (503 / 1000) 0) (pt (501 / 1000) 1, pt (501 / 1000) 0) \<and>
   segmentKey decimalStr (pt (501 / 1000) 1, pt (501 / 1000) 0) =
     segmentKey decimalStr (pt (503 / 1000) 1, pt (503 / 1000) 0) \<and>
   length (filter (\<lambda>c. creaseKey decimalStr c =
             segmentKey decimalStr (pt (503 / 1000) 1, pt (503 / 1000) 0))
       [valleyCrease (pt (503 / 1000) 1) (pt (503 / 1000) 0)]) = 1"
proof -
  have p: "polygons sameCellSkeleton = [[0, 1, 2, 3]]" by (simp add: sameCellSkeleton_def)
  have 1: "buildPerpendicularsFromFaces decimalStr sameCellSkeleton =
     Inr [valleyCrease (pt (503 / 1000) 1) (pt (503 / 1000) 0)]"
    by (simp add: buildPerpendicularsFromFaces_def p faceOf_sameCell faceSegments_sameCell
        addValley_segmentKey key_values del: One_nat_def)
  have 2: "derivedSegment sameCellSkeleton (pt (503 / 1000) 1, pt (503 / 1000) 0)"
    by (simp add: derivedSegment_def p faceOf_sameCell faceSegments_sameCell
        del: One_nat_def)
  have 3: "derivedSegment sameCellSkeleton (pt (501 / 1000) 1, pt (501 / 1000) 0)"
    by (simp add: derivedSegment_def p faceOf_sameCell faceSegments_sameCell
        del: One_nat_def)
  have 4: "sameQuantizedEdge (pt (503 / 1000) 1, pt (503 / 1000) 0)
      (pt (501 / 1000) 1, pt (501 / 1000) 0)"
    by (simp add: sameQuantizedEdge_def Let_def quantizePoint_def jsRound_def)
  from valley_deduplication [OF 1 2 3 4]
  have 5: "segmentKey decimalStr (pt (501 / 1000) 1, pt (501 / 1000) 0) =
     segmentKey decimalStr (pt (503 / 1000) 1, pt (503 / 1000) 0)"
    and 6: "length (filter (\<lambda>c. creaseKey decimalStr c =
             segmentKey decimalStr (pt (503 / 1000) 1, pt (503 / 1000) 0))
       [valleyCrease (pt (503 / 1000) 1) (pt (503 / 1000) 0)]) = 1"
    by blast+
  from 1 2 3 4 5 6 show ?thesis by (intro conjI)
qed

section \<open>A complete run on a square\<close>

lemma sqrt_25: "sqrt 25 = 5" using real_sqrt_abs2 [of 5] by simp
lemma sqrt_100: "sqrt 100 = 10" using real_sqrt_abs2 [of 10] by simp

lemma faceOf_square:
  "faceOf (vertices squareSkeleton) [0, 1, 4] =
     Inr [\<lparr>fv_i = 0, fv_x = 0, fv_y = 0, fv_t = 0\<rparr>, \<lparr>fv_i = 1, fv_x = 10, fv_y = 0, fv_t = 0\<rparr>,
          \<lparr>fv_i = 4, fv_x = 5, fv_y = 5, fv_t = 5\<rparr>]"
  "faceOf (vertices squareSkeleton) [1, 2, 4] =
     Inr [\<lparr>fv_i = 1, fv_x = 10, fv_y = 0, fv_t = 0\<rparr>, \<lparr>fv_i = 2, fv_x = 10, fv_y = 10, fv_t = 0\<rparr>,
          \<lparr>fv_i = 4, fv_x = 5, fv_y = 5, fv_t = 5\<rparr>]"
  "faceOf (vertices squareSkeleton) [2, 3, 4] =
     Inr [\<lparr>fv_i = 2, fv_x = 10, fv_y = 10, fv_t = 0\<rparr>, \<lparr>fv_i = 3, fv_x = 0, fv_y = 10, fv_t = 0\<rparr>,
          \<lparr>fv_i = 4, fv_x = 5, fv_y = 5, fv_t = 5\<rparr>]"
  "faceOf (vertices squareSkeleton) [3, 0, 4] =
     Inr [\<lparr>fv_i = 3, fv_x = 0, fv_y = 10, fv_t = 0\<rparr>, \<lparr>fv_i = 0, fv_x = 0, fv_y = 0, fv_t = 0\<rparr>,
          \<lparr>fv_i = 4, fv_x = 5, fv_y = 5, fv_t = 5\<rparr>]"
  by (simp_all add: faceOf_def squareSkeleton_def nthOpt_def)

lemma faceSegments_square:
  "faceSegments [\<lparr>fv_i = 0, fv_x = 0, fv_y = 0, fv_t = 0\<rparr>, \<lparr>fv_i = 1, fv_x = 10, fv_y = 0, fv_t = 0\<rparr>,
          \<lparr>fv_i = 4, fv_x = 5, fv_y = 5, fv_t = 5\<rparr>] = [(pt 5 5, pt 5 0)]"
  "faceSegments [\<lparr>fv_i = 1, fv_x = 10, fv_y = 0, fv_t = 0\<rparr>, \<lparr>fv_i = 2, fv_x = 10, fv_y = 10, fv_t = 0\<rparr>,
          \<lparr>fv_i = 4, fv_x = 5, fv_y = 5, fv_t = 5\<rparr>] = [(pt 5 5, pt 10 5)]"
  "faceSegments [\<lparr>fv_i = 2, fv_x = 10, fv_y = 10, fv_t = 0\<rparr>, \<lparr>fv_i = 3, fv_x = 0, fv_y = 10, fv_t = 0\<rparr>,
          \<lparr>fv_i = 4, fv_x = 5, fv_y = 5, fv_t = 5\<rparr>] = [(pt 5 5, pt 5 10)]"
  "faceSegments [\<lparr>fv_i = 3, fv_x = 0, fv_y = 10, fv_t = 0\<rparr>, \<lparr>fv_i = 0, fv_x = 0, fv_y = 0, fv_t = 0\<rparr>,
          \<lparr>fv_i = 4, fv_x = 5, fv_y = 5, fv_t = 5\<rparr>] = [(pt 5 5, pt 0 5)]"
  by (simp_all add: perp_defs sqrt_25 sqrt_100)

lemma decimalStr_small: "decimalStr 5 = ''5''" "decimalStr 10 = ''10''"
  by (simp_all add: decimalStr_def Let_def natStr.simps)

lemma key_square:
  "segmentKey decimalStr (pt 5 5, pt 5 0) = ''5,0|5,5''"
  "segmentKey decimalStr (pt 5 5, pt 10 5) = ''10,5|5,5''"
  "segmentKey decimalStr (pt 5 5, pt 5 10) = ''5,10|5,5''"
  "segmentKey decimalStr (pt 5 5, pt 0 5) = ''0,5|5,5''"
  by (simp_all add: segmentKey_def keyForUndirectedEdge_def Let_def quantizePoint_def
      jsRound_def decimalStr_values decimalStr_small)

lemma perps_square:
  "buildPerpendicularsFromFaces decimalStr squareSkeleton =
     Inr [valleyCrease (pt 5 5) (pt 5 0), valleyCrease (pt 5 5) (pt 10 5),
          valleyCrease (pt 5 5) (pt 5 10), valleyCrease (pt 5 5) (pt 0 5)]"
proof -
  have p: "polygons squareSkeleton = [[0, 1, 4], [1, 2, 4], [2, 3, 4], [3, 0, 4]]"
    by (simp add: squareSkeleton_def)
  show ?thesis
    by (simp add: buildPerpendicularsFromFaces_def p faceOf_square faceSegments_square
        addValley_segmentKey key_square del: One_nat_def)
qed

lemma extract_square:
  "extractInteriorEdgesFromSkeleton squareSkeleton = [(1, 4), (0, 4), (2, 4), (3, 4)]"
  by (simp add: extractInteriorEdgesFromSkeleton_def squareSkeleton_def edgeCounts_def
      countFace_def countEdge_def Let_def interiorEdge_def nthOpt_def)

lemma rings_squareA:
  "buildRingsFromProject [squareA] None =
     Inr \<lparr>rings = [[[0, 0], [10, 0], [10, 10], [0, 10], [0, 0]]],
          outerRing = [pt 0 0, pt 10 0, pt 10 10, pt 0 10]\<rparr>"
proof -
  have c: "closedShapes [squareA] = [squareA]" by (simp add: closedShapes_def squareA_def)
  have a: "polygonArea (info_ring infoA) = 100" by (simp add: infoA_def geom_defs)
  show ?thesis
    using a
    by (simp add: buildRingsFromProject_def normalizedRings_def c Let_def
        selectedShape_def selectedNotClosed_def truthyId_def ringInfoOf_squareA
        chooseOuter_def largestRing_def ensureCCW_def closeRing_def)
       (simp add: infoA_def pt_def)
qed

lemma cut_square:
  "cutLineOf squareSkeleton \<lparr>vp_w = 1000, vp_h = 700\<rparr> = (pt 0 5, pt 1000 5)"
  by (simp add: cutLineOf_def squareSkeleton_def bboxOfPoints_def accMin_def accMax_def Let_def)

lemma mountains_square:
  "mountainCrease (vertices squareSkeleton) (1, 4) =
     \<lparr>crease_a = pt 10 0, crease_b = pt 5 5, crease_kind = KindM, crease_source = ''skeleton''\<rparr>"
  "mountainCrease (vertices squareSkeleton) (0, 4) =
     \<lparr>crease_a = pt 0 0, crease_b = pt 5 5, crease_kind = KindM, crease_source = ''skeleton''\<rparr>"
  "mountainCrease (vertices squareSkeleton) (2, 4) =
     \<lparr>crease_a = pt 10 10, crease_b = pt 5 5, crease_kind = KindM, crease_source = ''skeleton''\<rparr>"
  "mountainCrease (vertices squareSkeleton) (3, 4) =
     \<lparr>crease_a = pt 0 10, crease_b = pt 5 5, crease_kind = KindM, crease_source = ''skeleton''\<rparr>"
  by (simp_all add: mountainCrease_def squareSkeleton_def)

lemma run_square:
  "run decimalStr (\<lambda>r. Some squareSkeleton) [squareA] None \<lparr>vp_w = 1000, vp_h = 700\<rparr> =
     Inr squareResult"
  by (simp add: run_def rings_squareA extract_square perps_square squareResult_def Let_def
      mountains_square cut_square del: One_nat_def)

text \<open>
  The run on the square: four mountain creases, four valley creases, and the
  cut line at \<open>y = 5\<close> across the viewport.
\<close>

theorem cut_line_midpoint_witness:
  "run decimalStr (\<lambda>r. Some squareSkeleton) [squareA] None \<lparr>vp_w = 1000, vp_h = 700\<rparr> =
     Inr squareResult \<and>
   res_cutLine squareResult = (pt 0 5, pt 1000 5) \<and>
   Min (set (map (\<lambda>v. fst (snd v)) (vertices squareSkeleton))) = 0 \<and>
   Max (set (map (\<lambda>v. fst (snd v)) (vertices squareSkeleton))) = 10"
proof -
  have v: "vertices (res_skeleton squareResult) \<noteq> []"
    by (simp add: squareResult_def squareSkeleton_def)
  have mn: "Min (set (map (\<lambda>v. fst (snd v)) (vertices squareSkeleton))) = 0"
    by (simp add: squareSkeleton_def)
  have mx: "Max (set (map (\<lambda>v. fst (snd v)) (vertices squareSkeleton))) = 10"
    by (simp add: squareSkeleton_def)
  have sk: "res_skeleton squareResult = squareSkeleton" by (simp add: squareResult_def)
  from cut_line_midpoint [OF run_square] v
  have "res_cutLine squareResult = (pt 0 5, pt 1000 5)"
    by (simp add: sk mn mx del: set_map)
  with run_square mn mx show ?thesis by (intro conjI)
qed

section \<open>Orientation as computed in double precision\<close>


























lemma foldl_add_sum_list:
  fixes f :: "nat \<Rightarrow> real"
  shows "foldl (\<lambda>a i. a + f i) s is = s + sum_list (map f is)"
  by (induction "is" arbitrary: s) simp_all

lemma polygonAreaFl_id: "polygonAreaFl (\<lambda>v. v) ps = polygonArea ps"
proof -
  have "shoelaceTermFl (\<lambda>v. v) ps = shoelaceTerm ps"
    by (rule ext) (simp add: shoelaceTermFl_def shoelaceTerm_def)
  then show ?thesis
    by (simp add: polygonAreaFl_def polygonArea_def foldl_add_sum_list)
qed







end
